theory Spec2Isabelle
  imports Main
begin

section \<open>Overview\<close>

text \<open>
  The repository holds one script, \<open>updateScript.js\<close>, run once a minute. It asks the
  Fantasy Premier League API whether a match of the current gameweek is being played; if
  so it fetches the bootstrap snapshot, the live statistics of the gameweek and the
  fixtures, validates them, and writes them to a SQL Server database: five reference
  tables by MERGE, then the live columns of the player rows by UPDATE. The process ends
  with status 0 after a skip or a complete write and with status 1 otherwise.

  This theory embeds the script: the values it reads, the functions of the script under
  their own names, the statements they send, and the world they act on (stored rows, the
  requests sent, the connection). The API, the driver and the server are the environment
  of a run. The theorems settle the claims C1 to C10 about the script.
\<close>

section \<open>JavaScript values\<close>

text \<open>
  The script works on the parsed JSON bodies that axios hands back. A value is one of the
  JSON shapes, or \<open>undefined\<close> (a missing property). JSON numbers are modelled as
  integers: the script reads numbers only as identifiers and counters, and the decimal
  statistics of this API arrive as strings. An object is the association list that
  \<open>JSON.parse\<close> built, looked up by key.
\<close>

datatype jv =
    JUndefined
  | JNull
  | JBool bool
  | JNum int
  | JStr string
  | JArr "jv list"
  | JObj "(string \<times> jv) list"

text \<open>\<open>!v\<close> is \<open>\<not> truthy v\<close>: the falsy values are undefined, null, false, 0 and the empty string.\<close>

fun truthy :: "jv \<Rightarrow> bool" where
  "truthy JUndefined = False"
| "truthy JNull = False"
| "truthy (JBool b) = b"
| "truthy (JNum n) = (n \<noteq> 0)"
| "truthy (JStr s) = (s \<noteq> [])"
| "truthy (JArr xs) = True"
| "truthy (JObj kvs) = True"

text \<open>Reading a property of null or undefined raises a TypeError; \<open>nullish\<close> marks those two.\<close>

fun nullish :: "jv \<Rightarrow> bool" where
  "nullish JUndefined = True"
| "nullish JNull = True"
| "nullish v = False"

text \<open>
  \<open>js_get v k\<close> is \<open>v.k\<close> for a value that is not nullish. The property names the script
  reads (\<open>events\<close>, \<open>is_current\<close>, \<open>id\<close>, \<open>started\<close>, \<open>stats\<close>, ...) are not members of any
  prototype, so on arrays, strings, numbers and booleans only \<open>length\<close> can be defined.
\<close>

fun js_get :: "jv \<Rightarrow> string \<Rightarrow> jv" where
  "js_get (JObj kvs) k = (case map_of kvs k of Some v \<Rightarrow> v | None \<Rightarrow> JUndefined)"
| "js_get (JArr xs) k = (if k = ''length'' then JNum (int (length xs)) else JUndefined)"
| "js_get (JStr s) k = (if k = ''length'' then JNum (int (length s)) else JUndefined)"
| "js_get v k = JUndefined"

text \<open>\<open>a || b\<close>\<close>

definition js_or :: "jv \<Rightarrow> jv \<Rightarrow> jv" where
  "js_or a b = (if truthy a then a else b)"

text \<open>\<open>Array.isArray(v)\<close> and \<open>typeof v === 'number'\<close>\<close>

fun isArray :: "jv \<Rightarrow> bool" where
  "isArray (JArr xs) = True"
| "isArray v = False"

fun is_number :: "jv \<Rightarrow> bool" where
  "is_number (JNum n) = True"
| "is_number v = False"

section \<open>Errors and outcomes\<close>

text \<open>
  The exceptions of the script. \<open>FailedToUpdate n\<close> is
  \<open>new Error(`Failed to update ${n} players`)\<close>; \<open>AxiosError\<close> is the rejection of
  \<open>axios.get\<close> (transport error, timeout, or a status other than 200).
\<close>

datatype error =
    TypeError
  | Error string
  | AxiosError string
  | RequestError string
  | ConnectionError string
  | FailedToUpdate nat

section \<open>The source API\<close>

text \<open>
  The three endpoints, and the function that issues the request. The same endpoint is
  fetched by several functions of one run, and the answers may differ, so the environment
  answers per calling function.
\<close>

datatype url =
    BootstrapStatic
  | FixturesOfEvent jv
  | EventLive jv
  | Fixtures

datatype caller = CheckIfGameIsLive | GetBootstrapData | GetCurrentGameweekData | GetFixturesData

datatype response = Resp jv | Rejected string

type_synonym api = "caller \<Rightarrow> url \<Rightarrow> response"

text \<open>\<open>events.find(event => event.is_current)\<close>: the callback raises on a nullish element.\<close>

fun find_current :: "jv list \<Rightarrow> error + jv" where
  "find_current [] = Inr JUndefined"
| "find_current (event # events) =
     (if nullish event then Inl TypeError
      else if truthy (js_get event ''is_current'') then Inr event
      else find_current events)"

text \<open>A fixture is live if it has started but not finished (both compared with \<open>===\<close>).\<close>

definition is_live :: "jv \<Rightarrow> bool" where
  "is_live fixture \<longleftrightarrow>
     js_get fixture ''started'' = JBool True \<and> js_get fixture ''finished'' = JBool False"

text \<open>\<open>fixtures.filter(...)\<close> visits every element and raises on a nullish one.\<close>

fun filter_live :: "jv list \<Rightarrow> error + jv list" where
  "filter_live [] = Inr []"
| "filter_live (fixture # fixtures) =
     (if nullish fixture then Inl TypeError
      else case filter_live fixtures of
             Inl e \<Rightarrow> Inl e
           | Inr live \<Rightarrow> Inr (if is_live fixture then fixture # live else live))"

text \<open>\<open>checkIfGameIsLive\<close> of the current script (with the response guards).\<close>

definition checkIfGameIsLive :: "api \<Rightarrow> error + bool" where
  "checkIfGameIsLive get =
     (case get CheckIfGameIsLive BootstrapStatic of
        Rejected m \<Rightarrow> Inl (AxiosError m)
      | Resp data \<Rightarrow>
          if \<not> truthy data \<or> \<not> truthy (js_get data ''events'')
          then Inl (Error ''Bootstrap API returned invalid events data'')
          else (case js_get data ''events'' of
                  JArr events \<Rightarrow>
                    (case find_current events of
                       Inl e \<Rightarrow> Inl e
                     | Inr currentGameweek \<Rightarrow>
                         if \<not> truthy currentGameweek then Inr False
                         else (case get CheckIfGameIsLive (FixturesOfEvent (js_get currentGameweek ''id'')) of
                                 Rejected m \<Rightarrow> Inl (AxiosError m)
                               | Resp fdata \<Rightarrow>
                                   if \<not> truthy fdata \<or> \<not> isArray fdata
                                   then Inl (Error ''Fixtures API returned invalid data'')
                                   else (case fdata of
                                           JArr fixtures \<Rightarrow>
                                             (case filter_live fixtures of
                                                Inl e \<Rightarrow> Inl e
                                              | Inr liveFixtures \<Rightarrow> Inr (length liveFixtures > 0))
                                         | _ \<Rightarrow> Inl TypeError)))
                | _ \<Rightarrow> Inl TypeError))"

text \<open>
  \<open>checkIfGameIsLive\<close> of the first script (\<open>src/updateScript.js\<close>): no guards, so a missing
  body, a missing \<open>events\<close> or a body that is not an array raises a TypeError at the
  property read or at the call of \<open>find\<close> or \<open>filter\<close>.
\<close>

definition checkIfGameIsLive_v1 :: "api \<Rightarrow> error + bool" where
  "checkIfGameIsLive_v1 get =
     (case get CheckIfGameIsLive BootstrapStatic of
        Rejected m \<Rightarrow> Inl (AxiosError m)
      | Resp data \<Rightarrow>
          if nullish data then Inl TypeError
          else (case js_get data ''events'' of
                  JArr events \<Rightarrow>
                    (case find_current events of
                       Inl e \<Rightarrow> Inl e
                     | Inr currentGameweek \<Rightarrow>
                         if \<not> truthy currentGameweek then Inr False
                         else (case get CheckIfGameIsLive (FixturesOfEvent (js_get currentGameweek ''id'')) of
                                 Rejected m \<Rightarrow> Inl (AxiosError m)
                               | Resp (JArr fixtures) \<Rightarrow>
                                   (case filter_live fixtures of
                                      Inl e \<Rightarrow> Inl e
                                    | Inr liveFixtures \<Rightarrow> Inr (length liveFixtures > 0))
                               | Resp _ \<Rightarrow> Inl TypeError))
                | _ \<Rightarrow> Inl TypeError))"

text \<open>\<open>getBootstrapData\<close>, \<open>getCurrentGameweekData\<close> and \<open>getFixturesData\<close>.\<close>

definition getBootstrapData :: "api \<Rightarrow> error + jv" where
  "getBootstrapData get =
     (case get GetBootstrapData BootstrapStatic of
        Rejected m \<Rightarrow> Inl (AxiosError m)
      | Resp data \<Rightarrow>
          if \<not> truthy data then Inl (Error ''Bootstrap API returned empty response'')
          else Inr data)"

definition getCurrentGameweekData :: "api \<Rightarrow> error + jv" where
  "getCurrentGameweekData get =
     (case get GetCurrentGameweekData BootstrapStatic of
        Rejected m \<Rightarrow> Inl (AxiosError m)
      | Resp data \<Rightarrow>
          if \<not> truthy data \<or> \<not> truthy (js_get data ''events'')
          then Inl (Error ''Bootstrap API returned invalid events data'')
          else (case js_get data ''events'' of
                  JArr events \<Rightarrow>
                    (case find_current events of
                       Inl e \<Rightarrow> Inl e
                     | Inr currentGameweek \<Rightarrow>
                         if \<not> truthy currentGameweek then Inl (Error ''No current gameweek found'')
                         else (case get GetCurrentGameweekData (EventLive (js_get currentGameweek ''id'')) of
                                 Rejected m \<Rightarrow> Inl (AxiosError m)
                               | Resp ldata \<Rightarrow>
                                   if \<not> truthy ldata \<or> \<not> truthy (js_get ldata ''elements'')
                                   then Inl (Error ''Live API returned invalid player data'')
                                   else Inr (JObj [(''gameweekId'', js_get currentGameweek ''id''),
                                                   (''elements'', js_get ldata ''elements'')])))
                | _ \<Rightarrow> Inl TypeError))"

definition getFixturesData :: "api \<Rightarrow> error + jv" where
  "getFixturesData get =
     (case get GetFixturesData Fixtures of
        Rejected m \<Rightarrow> Inl (AxiosError m)
      | Resp data \<Rightarrow>
          if \<not> truthy data \<or> \<not> isArray data then Inl (Error ''Fixtures API returned invalid data'')
          else Inr data)"

section \<open>Validation\<close>

text \<open>
  What \<open>validateData\<close> writes to the console is the only trace of the rule that fired, so the
  model returns the lines it printed next to the boolean. The interpolated numbers of a
  line are left as the template has them.
\<close>

datatype console_line = ConsoleLog string | ConsoleWarn string | ConsoleError string

text \<open>\<open>!v || !Array.isArray(v) || v.length === 0\<close>\<close>

definition invalid_or_empty :: "jv \<Rightarrow> bool" where
  "invalid_or_empty v \<longleftrightarrow> \<not> truthy v \<or> \<not> isArray v \<or> js_get v ''length'' = JNum 0"

text \<open>\<open>v.length < n\<close>, read where \<open>v\<close> is known to be an array (undefined compares false).\<close>

fun length_below :: "jv \<Rightarrow> int \<Rightarrow> bool" where
  "length_below v n = (case js_get v ''length'' of JNum l \<Rightarrow> l < n | _ \<Rightarrow> False)"

definition expectedTeamsCount :: int where "expectedTeamsCount = 20"
definition minPlayersCount :: int where "minPlayersCount = 400"
definition minEventsCount :: int where "minEventsCount = 38"

definition validation_passed_lines :: "console_line list" where
  "validation_passed_lines =
     [ConsoleLog ''Data validation passed:'',
      ConsoleLog ''- ${bootstrapData.teams.length} teams'',
      ConsoleLog ''- ${bootstrapData.elements.length} players'',
      ConsoleLog ''- ${bootstrapData.events.length} events'',
      ConsoleLog ''- ${bootstrapData.element_types.length} element types'',
      ConsoleLog ''- ${fixturesData.length} fixtures'',
      ConsoleLog ''- ${gameweekData.elements.length} live player stats for gameweek ${gameweekData.gameweekId}'']"

definition validateData :: "jv \<Rightarrow> jv \<Rightarrow> jv \<Rightarrow> bool \<times> console_line list" where
  "validateData bootstrapData gameweekData fixturesData =
     (let start = [ConsoleLog ''Validating data before database update...''] in
      if \<not> truthy bootstrapData
      then (False, start @ [ConsoleError ''Bootstrap data is null or undefined''])
      else if invalid_or_empty (js_get bootstrapData ''teams'')
      then (False, start @ [ConsoleError ''Invalid or empty teams data''])
      else if invalid_or_empty (js_get bootstrapData ''elements'')
      then (False, start @ [ConsoleError ''Invalid or empty players (elements) data''])
      else if invalid_or_empty (js_get bootstrapData ''events'')
      then (False, start @ [ConsoleError ''Invalid or empty events data''])
      else if invalid_or_empty (js_get bootstrapData ''element_types'')
      then (False, start @ [ConsoleError ''Invalid or empty element_types data''])
      else if \<not> truthy gameweekData
      then (False, start @ [ConsoleError ''Gameweek data is null or undefined''])
      else if \<not> truthy (js_get gameweekData ''gameweekId'') \<or> \<not> is_number (js_get gameweekData ''gameweekId'')
      then (False, start @ [ConsoleError ''Invalid gameweek ID''])
      else if invalid_or_empty (js_get gameweekData ''elements'')
      then (False, start @ [ConsoleError ''Invalid or empty gameweek elements data''])
      else if invalid_or_empty fixturesData
      then (False, start @ [ConsoleError ''Invalid or empty fixtures data''])
      else
        (let teams_warning =
               (if js_get (js_get bootstrapData ''teams'') ''length'' \<noteq> JNum expectedTeamsCount
                then [ConsoleWarn ''Warning: Expected ${expectedTeamsCount} teams, but got ${bootstrapData.teams.length}'']
                else []);
             events_warning =
               (if length_below (js_get bootstrapData ''events'') minEventsCount
                then [ConsoleWarn ''Warning: Expected ${minEventsCount} events, but got ${bootstrapData.events.length}'']
                else [])
         in if length_below (js_get bootstrapData ''elements'') minPlayersCount
            then (False, start @ teams_warning @
                    [ConsoleError ''Invalid player count: Expected at least ${minPlayersCount} players, but got ${bootstrapData.elements.length}''])
            else (True, start @ teams_warning @ events_warning @ validation_passed_lines)))"

text \<open>
  The rules of the validator as the specification lists them, every one evaluated on its
  own and every violated reason collected, in the order of the checks. This is the
  reference the claim about collected reasons is compared with; the rules below a missing
  parent (a null snapshot) count as violated too.
\<close>

definition spec_violations :: "jv \<Rightarrow> jv \<Rightarrow> jv \<Rightarrow> string list" where
  "spec_violations bootstrapData gameweekData fixturesData =
     (if \<not> truthy bootstrapData then [''Bootstrap data is null or undefined''] else []) @
     (if invalid_or_empty (js_get bootstrapData ''teams'') then [''Invalid or empty teams data''] else []) @
     (if invalid_or_empty (js_get bootstrapData ''elements'') then [''Invalid or empty players (elements) data''] else []) @
     (if invalid_or_empty (js_get bootstrapData ''events'') then [''Invalid or empty events data''] else []) @
     (if invalid_or_empty (js_get bootstrapData ''element_types'') then [''Invalid or empty element_types data''] else []) @
     (if \<not> truthy gameweekData then [''Gameweek data is null or undefined''] else []) @
     (if \<not> truthy (js_get gameweekData ''gameweekId'') \<or> \<not> is_number (js_get gameweekData ''gameweekId'')
      then [''Invalid gameweek ID''] else []) @
     (if invalid_or_empty (js_get gameweekData ''elements'') then [''Invalid or empty gameweek elements data''] else []) @
     (if invalid_or_empty fixturesData then [''Invalid or empty fixtures data''] else []) @
     (if length_below (js_get bootstrapData ''elements'') minPlayersCount
      then [''Invalid player count: Expected at least ${minPlayersCount} players, but got ${bootstrapData.elements.length}'']
      else [])"

text \<open>The reasons the validator reported: the text of its \<open>console.error\<close> lines.\<close>

fun reported_reasons :: "console_line list \<Rightarrow> string list" where
  "reported_reasons [] = []"
| "reported_reasons (ConsoleError m # ls) = m # reported_reasons ls"
| "reported_reasons (l # ls) = reported_reasons ls"

fun reported_warnings :: "console_line list \<Rightarrow> string list" where
  "reported_warnings [] = []"
| "reported_warnings (ConsoleWarn m # ls) = m # reported_warnings ls"
| "reported_warnings (l # ls) = reported_warnings ls"

section \<open>The database\<close>

text \<open>
  A request is the statement and the parameters bound with \<open>addParameter\<close>. The statements
  of the script have two shapes. \<open>Merge t set_cols ins_cols\<close> is

  \<^verbatim>\<open>MERGE dbo.t AS target USING (SELECT @id AS id) AS source ON target.id = source.id
  WHEN MATCHED THEN UPDATE SET c = @c (c in set_cols), last_updated = GETUTCDATE()
  WHEN NOT MATCHED THEN INSERT (ins_cols) VALUES (@ins_cols);\<close>

  and \<open>Update t set_cols k\<close> is

  \<^verbatim>\<open>UPDATE dbo.t SET c = @c (c in set_cols), last_updated = GETUTCDATE() WHERE id = @k;\<close>
\<close>

datatype query =
    Merge string "string list" "string list"
  | Update string "string list" string

datatype sqltype = TInt | TNVarChar | TBit | TDateTime2 | TDecimal

text \<open>
  The value bound to a parameter. The floating-point parse and the date conversion are
  kept as the expression the script evaluates: \<open>ParseFloatOr v d\<close> is
  \<open>parseFloat(v) || d\<close> and \<open>NewDate v\<close> is \<open>new Date(v)\<close>.
\<close>

datatype param = Js jv | ParseFloatOr jv jv | NewDate jv

record request =
  query :: query
  params :: "(string \<times> sqltype \<times> param) list"

text \<open>
  A stored row maps a column to its cell; a column the row never received holds its
  schema default. \<open>last_updated\<close> holds the server time of the statement that wrote it.
  A table maps the integer primary key to the row.
\<close>

datatype cell = Val sqltype param | Stamp nat

type_synonym row = "string \<rightharpoonup> cell"
type_synonym table = "int \<rightharpoonup> row"
type_synonym database = "string \<Rightarrow> table"

text \<open>
  The driver and the server are outside the repository. What they do with a request is
  taken from the environment:
  \<^item> \<open>to_int v\<close>: the INT that the driver sends for the JavaScript value \<open>v\<close> bound to the
    key parameter: a number, SQL NULL, or a validation error;
  \<^item> \<open>driver n\<close>: the fate of the \<open>n\<close>-th request of the run: executed at server time \<open>t\<close>,
    failed with an error passed to the callback of the request, or the connection
    emitted its \<open>error\<close> event while the request was pending;
  \<^item> \<open>connect_error\<close>: the error passed to the \<open>connect\<close> handler, if any.
\<close>

datatype sql_int = IntVal int | IntNull | IntInvalid

datatype reply = Done nat | RequestFailed string | ConnectionLost string

record env =
  api :: api
  connect_error :: "string option"
  driver :: "nat \<Rightarrow> reply"
  to_int :: "jv \<Rightarrow> sql_int"

text \<open>
  The world of one run: the stored tables, the requests handed to \<open>connection.execSql\<close>
  with what became of each, and how often \<open>connection.connect()\<close> and
  \<open>connection.close()\<close> were called.
\<close>

datatype status = Succeeded | Failed | Lost

record world =
  db :: database
  requests :: "(request \<times> status) list"
  connects :: nat
  closes :: nat

text \<open>
  How a promise that the script awaits ends: it resolves, it rejects with an exception
  that the awaiting code can catch, or the connection raised its \<open>error\<close> event. The
  handler of that event (line 574) rejects the promise of \<open>updateDatabase\<close> at once; \<open>main\<close>
  is waiting on that promise, logs the error and calls \<open>process.exit(1)\<close>, so nothing that
  was still pending inside \<open>updateDatabase\<close> runs any more.
\<close>

datatype 'a result = Return 'a | Throw error | Abort error

definition key_of :: "env \<Rightarrow> request \<Rightarrow> string \<Rightarrow> sql_int" where
  "key_of e req name =
     (case map_of (params req) name of
        Some (ty, Js v) \<Rightarrow> to_int e v
      | _ \<Rightarrow> IntInvalid)"

text \<open>\<open>SET c = @c\<close> for every column of \<open>cols\<close>, on the row \<open>r\<close>.\<close>

definition set_columns :: "string list \<Rightarrow> (string \<times> sqltype \<times> param) list \<Rightarrow> row \<Rightarrow> row" where
  "set_columns cols ps r =
     (\<lambda>c. if c \<in> set cols then map_option (\<lambda>(ty, v). Val ty v) (map_of ps c) else r c)"

text \<open>
  The effect of a statement that the server executes at time \<open>t\<close>; \<open>None\<close> when it raises.
  A MERGE whose \<open>@id\<close> is NULL matches no row and its INSERT violates the primary key; an
  UPDATE whose key is NULL or matches no row changes nothing and raises nothing.
\<close>

definition apply_query :: "env \<Rightarrow> request \<Rightarrow> nat \<Rightarrow> database \<Rightarrow> database option" where
  "apply_query e req t d =
     (case query req of
        Merge tbl set_cols ins_cols \<Rightarrow>
          (case key_of e req ''id'' of
             IntVal k \<Rightarrow>
               (case d tbl k of
                  Some r \<Rightarrow>
                    Some (d(tbl := (d tbl)(k \<mapsto> (set_columns set_cols (params req) r)(''last_updated'' \<mapsto> Stamp t))))
                | None \<Rightarrow>
                    Some (d(tbl := (d tbl)(k \<mapsto> (set_columns ins_cols (params req) Map.empty)(''last_updated'' \<mapsto> Stamp t)))))
           | IntNull \<Rightarrow> None
           | IntInvalid \<Rightarrow> None)
      | Update tbl set_cols key \<Rightarrow>
          (case key_of e req key of
             IntVal k \<Rightarrow>
               (case d tbl k of
                  Some r \<Rightarrow>
                    Some (d(tbl := (d tbl)(k \<mapsto> (set_columns set_cols (params req) r)(''last_updated'' \<mapsto> Stamp t))))
                | None \<Rightarrow> Some d)
           | IntNull \<Rightarrow> Some d
           | IntInvalid \<Rightarrow> None))"

definition logged :: "request \<Rightarrow> status \<Rightarrow> world \<Rightarrow> world" where
  "logged req s w = w\<lparr>requests := requests w @ [(req, s)]\<rparr>"

text \<open>
  \<open>await new Promise((resolve, reject) => { ...; connection.execSql(request) })\<close> with the
  callback \<open>(err) => { if (err) reject(err); else resolve(); }\<close>. The callback does not look
  at the row count.
\<close>

definition execSql :: "env \<Rightarrow> request \<Rightarrow> world \<Rightarrow> unit result \<times> world" where
  "execSql e req w =
     (case driver e (length (requests w)) of
        ConnectionLost m \<Rightarrow> (Abort (ConnectionError m), logged req Lost w)
      | RequestFailed m \<Rightarrow> (Throw (RequestError m), logged req Failed w)
      | Done t \<Rightarrow>
          (case apply_query e req t (db w) of
             None \<Rightarrow> (Throw (RequestError ''statement rejected''), logged req Failed w)
           | Some d \<Rightarrow> (Return (), logged req Succeeded (w\<lparr>db := d\<rparr>))))"

section \<open>The upsert engine\<close>

text \<open>
  Each of the five reference tables is written by the same loop,
  \<^verbatim>\<open>for (const x of xs) { await new Promise(... connection.execSql(request) ...); updateCount++; }\<close>
  A rejected promise leaves the loop and the function. Building the request reads
  properties of the record, which raises a TypeError inside the promise if the record is
  null or undefined, before anything is sent.
\<close>

fun upsert_each :: "env \<Rightarrow> (jv \<Rightarrow> error + request) \<Rightarrow> jv list \<Rightarrow> world \<Rightarrow> unit result \<times> world" where
  "upsert_each e mk [] w = (Return (), w)"
| "upsert_each e mk (x # xs) w =
     (case mk x of
        Inl err \<Rightarrow> (Throw err, w)
      | Inr req \<Rightarrow>
          (case execSql e req w of
             (Return u, w') \<Rightarrow> upsert_each e mk xs w'
           | (r, w') \<Rightarrow> (r, w')))"

definition team_set_columns :: "string list" where
  "team_set_columns =
     [''name'', ''short_name'', ''code'', ''position'', ''strength'', ''strength_overall_home'', ''strength_overall_away'', ''strength_attack_home'', ''strength_attack_away'', ''strength_defence_home'', ''strength_defence_away'', ''pulse_id'']"

definition team_insert_columns :: "string list" where
  "team_insert_columns =
     [''id'', ''name'', ''short_name'', ''code'', ''position'', ''strength'', ''strength_overall_home'', ''strength_overall_away'', ''strength_attack_home'', ''strength_attack_away'', ''strength_defence_home'', ''strength_defence_away'', ''pulse_id'']"

definition team_request :: "jv \<Rightarrow> error + request" where
  "team_request team =
     (if nullish team then Inl TypeError
      else Inr \<lparr>query = Merge ''teams'' team_set_columns team_insert_columns,
        params =
            [(''id'', TInt, Js (js_get team ''id'')),
             (''name'', TNVarChar, Js (js_get team ''name'')),
             (''short_name'', TNVarChar, Js (js_get team ''short_name'')),
             (''code'', TInt, Js (js_get team ''code'')),
             (''position'', TInt, Js (js_or (js_get team ''position'') JNull)),
             (''strength'', TInt, Js (js_or (js_get team ''strength'') JNull)),
             (''strength_overall_home'', TInt, Js (js_or (js_get team ''strength_overall_home'') JNull)),
             (''strength_overall_away'', TInt, Js (js_or (js_get team ''strength_overall_away'') JNull)),
             (''strength_attack_home'', TInt, Js (js_or (js_get team ''strength_attack_home'') JNull)),
             (''strength_attack_away'', TInt, Js (js_or (js_get team ''strength_attack_away'') JNull)),
             (''strength_defence_home'', TInt, Js (js_or (js_get team ''strength_defence_home'') JNull)),
             (''strength_defence_away'', TInt, Js (js_or (js_get team ''strength_defence_away'') JNull)),
             (''pulse_id'', TInt, Js (js_or (js_get team ''pulse_id'') JNull))]\<rparr>)"

definition element_type_set_columns :: "string list" where
  "element_type_set_columns =
     [''plural_name'', ''plural_name_short'', ''singular_name'', ''singular_name_short'', ''squad_select'', ''squad_min_play'', ''squad_max_play'']"

definition element_type_insert_columns :: "string list" where
  "element_type_insert_columns =
     [''id'', ''plural_name'', ''plural_name_short'', ''singular_name'', ''singular_name_short'', ''squad_select'', ''squad_min_play'', ''squad_max_play'']"

definition element_type_request :: "jv \<Rightarrow> error + request" where
  "element_type_request ty =
     (if nullish ty then Inl TypeError
      else Inr \<lparr>query = Merge ''element_types'' element_type_set_columns element_type_insert_columns,
        params =
            [(''id'', TInt, Js (js_get ty ''id'')),
             (''plural_name'', TNVarChar, Js (js_get ty ''plural_name'')),
             (''plural_name_short'', TNVarChar, Js (js_get ty ''plural_name_short'')),
             (''singular_name'', TNVarChar, Js (js_get ty ''singular_name'')),
             (''singular_name_short'', TNVarChar, Js (js_get ty ''singular_name_short'')),
             (''squad_select'', TInt, Js (js_or (js_get ty ''squad_select'') JNull)),
             (''squad_min_play'', TInt, Js (js_or (js_get ty ''squad_min_play'') JNull)),
             (''squad_max_play'', TInt, Js (js_or (js_get ty ''squad_max_play'') JNull))]\<rparr>)"

definition event_set_columns :: "string list" where
  "event_set_columns =
     [''name'', ''deadline_time'', ''average_entry_score'', ''finished'', ''data_checked'', ''highest_scoring_entry'', ''highest_score'', ''is_previous'', ''is_current'', ''is_next'', ''most_selected'', ''most_transferred_in'', ''top_element'', ''transfers_made'', ''most_captained'', ''most_vice_captained'']"

definition event_insert_columns :: "string list" where
  "event_insert_columns =
     [''id'', ''name'', ''deadline_time'', ''average_entry_score'', ''finished'', ''data_checked'', ''highest_scoring_entry'', ''highest_score'', ''is_previous'', ''is_current'', ''is_next'', ''most_selected'', ''most_transferred_in'', ''top_element'', ''transfers_made'', ''most_captained'', ''most_vice_captained'']"

definition event_request :: "jv \<Rightarrow> error + request" where
  "event_request event =
     (if nullish event then Inl TypeError
      else Inr \<lparr>query = Merge ''events'' event_set_columns event_insert_columns,
        params =
            [(''id'', TInt, Js (js_get event ''id'')),
             (''name'', TNVarChar, Js (js_get event ''name'')),
             (''deadline_time'', TDateTime2, (if truthy (js_get event ''deadline_time'') then NewDate (js_get event ''deadline_time'') else Js JNull)),
             (''average_entry_score'', TInt, Js (js_or (js_get event ''average_entry_score'') JNull)),
             (''finished'', TBit, Js (js_or (js_get event ''finished'') (JBool False))),
             (''data_checked'', TBit, Js (js_or (js_get event ''data_checked'') (JBool False))),
             (''highest_scoring_entry'', TInt, Js (js_or (js_get event ''highest_scoring_entry'') JNull)),
             (''highest_score'', TInt, Js (js_or (js_get event ''highest_score'') JNull)),
             (''is_previous'', TBit, Js (js_or (js_get event ''is_previous'') (JBool False))),
             (''is_current'', TBit, Js (js_or (js_get event ''is_current'') (JBool False))),
             (''is_next'', TBit, Js (js_or (js_get event ''is_next'') (JBool False))),
             (''most_selected'', TInt, Js (js_or (js_get event ''most_selected'') JNull)),
             (''most_transferred_in'', TInt, Js (js_or (js_get event ''most_transferred_in'') JNull)),
             (''top_element'', TInt, Js (js_or (js_get event ''top_element'') JNull)),
             (''transfers_made'', TInt, Js (js_or (js_get event ''transfers_made'') JNull)),
             (''most_captained'', TInt, Js (js_or (js_get event ''most_captained'') JNull)),
             (''most_vice_captained'', TInt, Js (js_or (js_get event ''most_vice_captained'') JNull))]\<rparr>)"

definition fixture_set_columns :: "string list" where
  "fixture_set_columns =
     [''code'', ''event'', ''finished'', ''finished_provisional'', ''kickoff_time'', ''minutes'', ''started'', ''team_a'', ''team_h'', ''team_a_score'', ''team_h_score'', ''team_a_difficulty'', ''team_h_difficulty'', ''pulse_id'']"

definition fixture_insert_columns :: "string list" where
  "fixture_insert_columns =
     [''id'', ''code'', ''event'', ''finished'', ''finished_provisional'', ''kickoff_time'', ''minutes'', ''started'', ''team_a'', ''team_h'', ''team_a_score'', ''team_h_score'', ''team_a_difficulty'', ''team_h_difficulty'', ''pulse_id'']"

definition fixture_request :: "jv \<Rightarrow> error + request" where
  "fixture_request fixture =
     (if nullish fixture then Inl TypeError
      else Inr \<lparr>query = Merge ''fixtures'' fixture_set_columns fixture_insert_columns,
        params =
            [(''id'', TInt, Js (js_get fixture ''id'')),
             (''code'', TInt, Js (js_get fixture ''code'')),
             (''event'', TInt, Js (js_or (js_get fixture ''event'') JNull)),
             (''finished'', TBit, Js (js_or (js_get fixture ''finished'') (JBool False))),
             (''finished_provisional'', TBit, Js (js_or (js_get fixture ''finished_provisional'') (JBool False))),
             (''kickoff_time'', TDateTime2, (if truthy (js_get fixture ''kickoff_time'') then NewDate (js_get fixture ''kickoff_time'') else Js JNull)),
             (''minutes'', TInt, Js (js_or (js_get fixture ''minutes'') (JNum 0))),
             (''started'', TBit, Js (js_or (js_get fixture ''started'') (JBool False))),
             (''team_a'', TInt, Js (js_get fixture ''team_a'')),
             (''team_h'', TInt, Js (js_get fixture ''team_h'')),
             (''team_a_score'', TInt, Js (js_or (js_get fixture ''team_a_score'') JNull)),
             (''team_h_score'', TInt, Js (js_or (js_get fixture ''team_h_score'') JNull)),
             (''team_a_difficulty'', TInt, Js (js_or (js_get fixture ''team_a_difficulty'') JNull)),
             (''team_h_difficulty'', TInt, Js (js_or (js_get fixture ''team_h_difficulty'') JNull)),
             (''pulse_id'', TInt, Js (js_or (js_get fixture ''pulse_id'') JNull))]\<rparr>)"

definition player_set_columns :: "string list" where
  "player_set_columns =
     [''web_name'', ''first_name'', ''second_name'', ''team'', ''element_type'', ''now_cost'', ''total_points'', ''form'', ''points_per_game'', ''selected_by_percent'', ''status'']"

definition player_insert_columns :: "string list" where
  "player_insert_columns =
     [''id'', ''web_name'', ''first_name'', ''second_name'', ''team'', ''element_type'', ''code'', ''now_cost'', ''total_points'', ''form'', ''points_per_game'', ''selected_by_percent'', ''status'']"

definition player_request :: "jv \<Rightarrow> error + request" where
  "player_request player =
     (if nullish player then Inl TypeError
      else Inr \<lparr>query = Merge ''players'' player_set_columns player_insert_columns,
        params =
            [(''id'', TInt, Js (js_get player ''id'')),
             (''web_name'', TNVarChar, Js (js_get player ''web_name'')),
             (''first_name'', TNVarChar, Js (js_or (js_get player ''first_name'') JNull)),
             (''second_name'', TNVarChar, Js (js_or (js_get player ''second_name'') JNull)),
             (''team'', TInt, Js (js_get player ''team'')),
             (''element_type'', TInt, Js (js_get player ''element_type'')),
             (''code'', TInt, Js (js_get player ''code'')),
             (''now_cost'', TInt, Js (js_get player ''now_cost'')),
             (''total_points'', TInt, Js (js_or (js_get player ''total_points'') (JNum 0))),
             (''form'', TDecimal, ParseFloatOr (js_get player ''form'') JNull),
             (''points_per_game'', TDecimal, ParseFloatOr (js_get player ''points_per_game'') JNull),
             (''selected_by_percent'', TDecimal, ParseFloatOr (js_get player ''selected_by_percent'') JNull),
             (''status'', TNVarChar, Js (js_or (js_get player ''status'') (JStr ''a'')))]\<rparr>)"

definition updateTeams :: "env \<Rightarrow> jv list \<Rightarrow> world \<Rightarrow> unit result \<times> world" where
  "updateTeams e teams = upsert_each e team_request teams"

definition updateElementTypes :: "env \<Rightarrow> jv list \<Rightarrow> world \<Rightarrow> unit result \<times> world" where
  "updateElementTypes e elementTypes = upsert_each e element_type_request elementTypes"

definition updateEvents :: "env \<Rightarrow> jv list \<Rightarrow> world \<Rightarrow> unit result \<times> world" where
  "updateEvents e events = upsert_each e event_request events"

definition updateFixtures :: "env \<Rightarrow> jv list \<Rightarrow> world \<Rightarrow> unit result \<times> world" where
  "updateFixtures e fixtures = upsert_each e fixture_request fixtures"

definition updatePlayers :: "env \<Rightarrow> jv list \<Rightarrow> world \<Rightarrow> unit result \<times> world" where
  "updatePlayers e players = upsert_each e player_request players"

subsection \<open>Live statistics\<close>

definition stats_columns :: "string list" where
  "stats_columns =
     [''event_points'', ''minutes'', ''goals_scored'', ''assists'', ''clean_sheets'', ''goals_conceded'', ''own_goals'', ''penalties_saved'', ''penalties_missed'', ''yellow_cards'', ''red_cards'', ''saves'', ''bonus'', ''bps'', ''influence'', ''creativity'', ''threat'', ''ict_index'']"

text \<open>
  The request of one live row, built inside the \<open>try\<close>: \<open>stats.total_points\<close> raises when
  \<open>element.stats\<close> is null or undefined. The column \<open>event_points\<close> receives
  \<open>stats.total_points\<close>.
\<close>

definition stats_request :: "jv \<Rightarrow> error + request" where
  "stats_request element =
     (let stats = js_get element ''stats'' in
      if nullish stats then Inl TypeError
      else Inr \<lparr>query = Update ''players'' stats_columns ''player_id'',
        params =
            [(''player_id'', TInt, Js (js_get element ''id'')),
             (''event_points'', TInt, Js (js_or (js_get stats ''total_points'') (JNum 0))),
             (''minutes'', TInt, Js (js_or (js_get stats ''minutes'') (JNum 0))),
             (''goals_scored'', TInt, Js (js_or (js_get stats ''goals_scored'') (JNum 0))),
             (''assists'', TInt, Js (js_or (js_get stats ''assists'') (JNum 0))),
             (''clean_sheets'', TInt, Js (js_or (js_get stats ''clean_sheets'') (JNum 0))),
             (''goals_conceded'', TInt, Js (js_or (js_get stats ''goals_conceded'') (JNum 0))),
             (''own_goals'', TInt, Js (js_or (js_get stats ''own_goals'') (JNum 0))),
             (''penalties_saved'', TInt, Js (js_or (js_get stats ''penalties_saved'') (JNum 0))),
             (''penalties_missed'', TInt, Js (js_or (js_get stats ''penalties_missed'') (JNum 0))),
             (''yellow_cards'', TInt, Js (js_or (js_get stats ''yellow_cards'') (JNum 0))),
             (''red_cards'', TInt, Js (js_or (js_get stats ''red_cards'') (JNum 0))),
             (''saves'', TInt, Js (js_or (js_get stats ''saves'') (JNum 0))),
             (''bonus'', TInt, Js (js_or (js_get stats ''bonus'') (JNum 0))),
             (''bps'', TInt, Js (js_or (js_get stats ''bps'') (JNum 0))),
             (''influence'', TDecimal, ParseFloatOr (js_get stats ''influence'') (JNum 0)),
             (''creativity'', TDecimal, ParseFloatOr (js_get stats ''creativity'') (JNum 0)),
             (''threat'', TDecimal, ParseFloatOr (js_get stats ''threat'') (JNum 0)),
             (''ict_index'', TDecimal, ParseFloatOr (js_get stats ''ict_index'') (JNum 0))]\<rparr>)"

text \<open>
  The loop of \<open>updatePlayerStats\<close> with its two counters. \<open>const stats = element.stats\<close>
  stands before the \<open>try\<close>, so a null or undefined element leaves the loop with a
  TypeError; everything raised inside the \<open>try\<close> is caught and counted.
\<close>

fun stats_loop :: "env \<Rightarrow> jv list \<Rightarrow> nat \<Rightarrow> nat \<Rightarrow> world \<Rightarrow> (nat \<times> nat) result \<times> world" where
  "stats_loop e [] updateCount errorCount w = (Return (updateCount, errorCount), w)"
| "stats_loop e (element # rest) updateCount errorCount w =
     (if nullish element then (Throw TypeError, w)
      else case stats_request element of
             Inl err \<Rightarrow> stats_loop e rest updateCount (errorCount + 1) w
           | Inr req \<Rightarrow>
               (case execSql e req w of
                  (Return u, w') \<Rightarrow> stats_loop e rest (updateCount + 1) errorCount w'
                | (Throw err, w') \<Rightarrow> stats_loop e rest updateCount (errorCount + 1) w'
                | (Abort err, w') \<Rightarrow> (Abort err, w')))"

text \<open>
  \<open>updatePlayerStats\<close> is called once \<open>validateData\<close> has found \<open>gameweekData.elements\<close> to be
  an array; it receives the elements of that array.
\<close>

definition updatePlayerStats :: "env \<Rightarrow> jv list \<Rightarrow> world \<Rightarrow> unit result \<times> world" where
  "updatePlayerStats e elements w =
     (if length elements = 0 then (Return (), w)
      else case stats_loop e elements 0 0 w of
             (Return (updateCount, errorCount), w') \<Rightarrow>
               if errorCount > 0 then (Throw (FailedToUpdate errorCount), w')
               else (Return (), w')
           | (Throw err, w') \<Rightarrow> (Throw err, w')
           | (Abort err, w') \<Rightarrow> (Abort err, w'))"

section \<open>The orchestrator\<close>

text \<open>\<open>await f; await g\<close>: the second runs only if the first resolved.\<close>

definition then_await ::
  "(world \<Rightarrow> unit result \<times> world) \<Rightarrow> (world \<Rightarrow> unit result \<times> world) \<Rightarrow> world \<Rightarrow> unit result \<times> world" where
  "then_await f g w = (case f w of (Return u, w') \<Rightarrow> g w' | (r, w') \<Rightarrow> (r, w'))"

text \<open>The elements of a value that \<open>validateData\<close> has found to be an array.\<close>

fun elements_of :: "jv \<Rightarrow> jv list" where
  "elements_of (JArr xs) = xs"
| "elements_of v = []"

definition close_connection :: "world \<Rightarrow> world" where
  "close_connection w = w\<lparr>closes := closes w + 1\<rparr>"

text \<open>
  The first five awaits of the \<open>try\<close> block of \<open>updateDatabase\<close>: the merge-upserts of the
  reference tables, in the order of the source.
\<close>

definition reference_upserts :: "env \<Rightarrow> jv \<Rightarrow> jv \<Rightarrow> world \<Rightarrow> unit result \<times> world" where
  "reference_upserts e bootstrapData fixturesData =
     then_await (updateTeams e (elements_of (js_get bootstrapData ''teams'')))
    (then_await (updateElementTypes e (elements_of (js_get bootstrapData ''element_types'')))
    (then_await (updateEvents e (elements_of (js_get bootstrapData ''events'')))
    (then_await (updateFixtures e (elements_of fixturesData))
                (updatePlayers e (elements_of (js_get bootstrapData ''elements''))))))"

definition connecting :: "world \<Rightarrow> world" where
  "connecting w = w\<lparr>connects := connects w + 1\<rparr>"

text \<open>
  \<open>updateDatabase\<close>: \<open>connection.connect()\<close>, then the \<open>connect\<close> handler. A connect error
  rejects without closing. The \<open>try\<close> runs the five upserts and then \<open>updatePlayerStats\<close>
  and closes the connection after the last table; the \<open>catch\<close> closes it and rejects; the
  \<open>error\<close> handler of the connection only rejects.
\<close>

definition updateDatabase :: "env \<Rightarrow> jv \<Rightarrow> jv \<Rightarrow> jv \<Rightarrow> world \<Rightarrow> unit result \<times> world" where
  "updateDatabase e bootstrapData gameweekData fixturesData w =
     (case connect_error e of
        Some m \<Rightarrow> (Throw (ConnectionError m), connecting w)
      | None \<Rightarrow>
          (case then_await (reference_upserts e bootstrapData fixturesData)
                           (updatePlayerStats e (elements_of (js_get gameweekData ''elements'')))
                           (connecting w)
           of
             (Return u, w') \<Rightarrow> (Return (), close_connection w')
           | (Throw err, w') \<Rightarrow> (Throw err, close_connection w')
           | (Abort err, w') \<Rightarrow> (Abort err, w')))"

text \<open>
  \<open>main\<close> returns the exit status of the process and the world it leaves behind.
  \<open>process.exit\<close> ends the run where it is called.
\<close>

definition main :: "env \<Rightarrow> world \<Rightarrow> nat \<times> world" where
  "main e w =
     (case checkIfGameIsLive (api e) of
        Inl err \<Rightarrow> (1, w)
      | Inr isGameLive \<Rightarrow>
          if \<not> isGameLive then (0, w)
          else (case getBootstrapData (api e) of
                  Inl err \<Rightarrow> (1, w)
                | Inr bootstrapData \<Rightarrow>
                    (case getCurrentGameweekData (api e) of
                       Inl err \<Rightarrow> (1, w)
                     | Inr gameweekData \<Rightarrow>
                         (case getFixturesData (api e) of
                            Inl err \<Rightarrow> (1, w)
                          | Inr fixturesData \<Rightarrow>
                              if \<not> fst (validateData bootstrapData gameweekData fixturesData) then (1, w)
                              else (case updateDatabase e bootstrapData gameweekData fixturesData w of
                                      (Return u, w') \<Rightarrow> (0, w')
                                    | (r, w') \<Rightarrow> (1, w'))))))"

text \<open>A run starts with a fresh process on the stored tables.\<close>

definition fresh :: "database \<Rightarrow> world" where
  "fresh d = \<lparr>db = d, requests = [], connects = 0, closes = 0\<rparr>"

section \<open>Notions for the theorems\<close>

subsection \<open>The request log\<close>

text \<open>
  The place of a request in the dependency order of the schema: teams and position types
  come before players (foreign keys \<open>FK_players_team\<close>, \<open>FK_players_element_type\<close>),
  gameweeks and teams before fixtures, and every merge-upsert before the live update of
  a player row.
\<close>

definition write_phase :: "request \<Rightarrow> nat" where
  "write_phase req =
     (case query req of
        Merge tbl set_cols ins_cols \<Rightarrow>
          (if tbl = ''teams'' then 0
           else if tbl = ''element_types'' then 1
           else if tbl = ''events'' then 2
           else if tbl = ''fixtures'' then 3
           else 4)
      | Update tbl set_cols key \<Rightarrow> 5)"

definition is_reference_upsert :: "request \<Rightarrow> bool" where
  "is_reference_upsert req = (case query req of Merge tbl set_cols ins_cols \<Rightarrow> True | Update tbl set_cols key \<Rightarrow> False)"

text \<open>
  A logged request stops the run if it is a reference upsert that did not succeed, or if
  the connection was lost while it was pending.
\<close>

definition stops_run :: "request \<times> status \<Rightarrow> bool" where
  "stops_run q \<longleftrightarrow> snd q \<noteq> Succeeded \<and> (is_reference_upsert (fst q) \<or> snd q = Lost)"

text \<open>
  \<open>step_log lo hi w R rs\<close>: the step that went from the world \<open>w\<close> to the outcome \<open>R\<close> added
  exactly the requests \<open>rs\<close> to the log; they belong to the phases \<open>lo\<close> to \<open>hi\<close> and are
  in ascending phase; a request that stops the run can only be the last of them, and then
  the step did not resolve; and the step neither opened nor closed the connection.
\<close>

definition step_log ::
  "nat \<Rightarrow> nat \<Rightarrow> world \<Rightarrow> 'a result \<times> world \<Rightarrow> (request \<times> status) list \<Rightarrow> bool" where
  "step_log lo hi w R rs \<longleftrightarrow>
     requests (snd R) = requests w @ rs
     \<and> connects (snd R) = connects w \<and> closes (snd R) = closes w
     \<and> (\<forall>q\<in>set rs. lo \<le> write_phase (fst q) \<and> write_phase (fst q) \<le> hi)
     \<and> sorted (map (\<lambda>q. write_phase (fst q)) rs)
     \<and> (\<forall>q\<in>set (butlast rs). \<not> stops_run q)
     \<and> ((\<exists>v. fst R = Return v) \<longrightarrow> (\<forall>q\<in>set rs. \<not> stops_run q))"

text \<open>The requests of the live rows whose request can be built, in the order of the rows.\<close>

definition stats_requests_of :: "jv list \<Rightarrow> request list" where
  "stats_requests_of elements =
     concat (map (\<lambda>element. case stats_request element of Inr req \<Rightarrow> [req] | Inl err \<Rightarrow> []) elements)"

subsection \<open>Stored rows\<close>

text \<open>The stored rows with the column \<open>last_updated\<close> put aside.\<close>

definition untimed :: "database \<Rightarrow> database" where
  "untimed d = (\<lambda>tbl k. map_option (\<lambda>r. r(''last_updated'' := None)) (d tbl k))"

text \<open>
  The row, \<open>last_updated\<close> put aside, that a MERGE with the parameters \<open>ps\<close> leaves under
  its key, given the row it found there.
\<close>

definition merged_row ::
  "string list \<Rightarrow> string list \<Rightarrow> (string \<times> sqltype \<times> param) list \<Rightarrow> row option \<Rightarrow> row" where
  "merged_row set_cols ins_cols ps old =
     (case old of
        Some r \<Rightarrow> (set_columns set_cols ps r)(''last_updated'' := None)
      | None \<Rightarrow> (set_columns ins_cols ps Map.empty)(''last_updated'' := None))"

text \<open>
  What a run of merges over the records \<open>xs\<close> makes of the row under the key \<open>k\<close>: only
  the records whose \<open>@id\<close> is \<open>k\<close> touch it.
\<close>

fun row_after ::
  "env \<Rightarrow> (jv \<Rightarrow> error + request) \<Rightarrow> string list \<Rightarrow> string list \<Rightarrow> int \<Rightarrow> jv list \<Rightarrow> row option \<Rightarrow> row option" where
  "row_after e mk set_cols ins_cols k [] old = old"
| "row_after e mk set_cols ins_cols k (x # xs) old =
     (case mk x of
        Inr req \<Rightarrow>
          if key_of e req ''id'' = IntVal k
          then row_after e mk set_cols ins_cols k xs (Some (merged_row set_cols ins_cols (params req) old))
          else row_after e mk set_cols ins_cols k xs old
      | Inl err \<Rightarrow> row_after e mk set_cols ins_cols k xs old)"

text \<open>The parameters of the last record of \<open>xs\<close> whose \<open>@id\<close> is \<open>k\<close>.\<close>

fun last_params ::
  "env \<Rightarrow> (jv \<Rightarrow> error + request) \<Rightarrow> int \<Rightarrow> jv list \<Rightarrow> (string \<times> sqltype \<times> param) list option" where
  "last_params e mk k [] = None"
| "last_params e mk k (x # xs) =
     (case last_params e mk k xs of
        Some ps \<Rightarrow> Some ps
      | None \<Rightarrow>
          (case mk x of
             Inr req \<Rightarrow> if key_of e req ''id'' = IntVal k then Some (params req) else None
           | Inl err \<Rightarrow> None))"

text \<open>
  What a run of the five reference upserts on the snapshot \<open>bd\<close>, \<open>fd\<close> makes of the row of
  the table \<open>tbl\<close> under the key \<open>k\<close>.
\<close>

definition reference_row :: "env \<Rightarrow> jv \<Rightarrow> jv \<Rightarrow> string \<Rightarrow> int \<Rightarrow> row option \<Rightarrow> row option" where
  "reference_row e bd fd tbl k old =
     (if tbl = ''teams''
      then row_after e team_request team_set_columns team_insert_columns k (elements_of (js_get bd ''teams'')) old
      else if tbl = ''element_types''
      then row_after e element_type_request element_type_set_columns element_type_insert_columns k
             (elements_of (js_get bd ''element_types'')) old
      else if tbl = ''events''
      then row_after e event_request event_set_columns event_insert_columns k (elements_of (js_get bd ''events'')) old
      else if tbl = ''fixtures''
      then row_after e fixture_request fixture_set_columns fixture_insert_columns k (elements_of fd) old
      else if tbl = ''players''
      then row_after e player_request player_set_columns player_insert_columns k
             (elements_of (js_get bd ''elements'')) old
      else old)"

text \<open>
  What the logged statements \<open>rs\<close> of a live-stats batch make of the player row under the
  key \<open>k\<close>, \<open>last_updated\<close> put aside: only the statements that succeeded and whose
  \<open>@player_id\<close> is \<open>k\<close> write to it, and none creates it.
\<close>

fun live_row_after :: "env \<Rightarrow> int \<Rightarrow> (request \<times> status) list \<Rightarrow> row option \<Rightarrow> row option" where
  "live_row_after e k [] old = old"
| "live_row_after e k ((req, s) # rs) old =
     (if s = Succeeded \<and> key_of e req ''player_id'' = IntVal k
      then live_row_after e k rs
             (map_option (\<lambda>r. (set_columns stats_columns (params req) r)(''last_updated'' := None)) old)
      else live_row_after e k rs old)"

section \<open>A sample season\<close>

text \<open>
  A small season used to exercise the theorems below: gameweek 5 is current, one fixture
  is being played, the bootstrap snapshot has one team, one position type and 400 copies
  of one player, and the live endpoint reports one player, number 999, who is not part of
  the bootstrap snapshot.
\<close>

definition sample_event :: jv where
  "sample_event = JObj [(''id'', JNum 5), (''name'', JStr ''Gameweek 5''), (''is_current'', JBool True)]"

definition sample_fixture :: jv where
  "sample_fixture =
     JObj [(''id'', JNum 41), (''code'', JNum 2561935), (''event'', JNum 5), (''team_a'', JNum 1), (''team_h'', JNum 1),
           (''started'', JBool True), (''finished'', JBool False)]"

definition sample_team :: jv where
  "sample_team = JObj [(''id'', JNum 1), (''name'', JStr ''Arsenal''), (''short_name'', JStr ''ARS''), (''code'', JNum 3)]"

definition sample_position :: jv where
  "sample_position = JObj [(''id'', JNum 3), (''plural_name'', JStr ''Midfielders'')]"

definition sample_player :: jv where
  "sample_player =
     JObj [(''id'', JNum 7), (''web_name'', JStr ''Saka''), (''team'', JNum 1), (''element_type'', JNum 3),
           (''code'', JNum 223340), (''now_cost'', JNum 100), (''form'', JStr ''5.2'')]"

definition sample_bootstrap :: jv where
  "sample_bootstrap =
     JObj [(''events'', JArr [sample_event]),
           (''teams'', JArr [sample_team]),
           (''element_types'', JArr [sample_position]),
           (''elements'', JArr (replicate 400 sample_player))]"

definition sample_live_row :: jv where
  "sample_live_row = JObj [(''id'', JNum 999), (''stats'', JObj [(''minutes'', JNum 90), (''total_points'', JNum 2)])]"

definition sample_second_row :: jv where
  "sample_second_row = JObj [(''id'', JNum 7), (''stats'', JObj [(''minutes'', JNum 45), (''total_points'', JNum 1)])]"

definition sample_api :: api where
  "sample_api c u =
     (case u of
        BootstrapStatic \<Rightarrow> Resp sample_bootstrap
      | FixturesOfEvent i \<Rightarrow> Resp (JArr [sample_fixture])
      | EventLive i \<Rightarrow> Resp (JObj [(''elements'', JArr [sample_live_row, sample_second_row])])
      | Fixtures \<Rightarrow> Resp (JArr [sample_fixture]))"

definition sample_to_int :: "jv \<Rightarrow> sql_int" where
  "sample_to_int v =
     (case v of JNum n \<Rightarrow> IntVal n | JNull \<Rightarrow> IntNull | JUndefined \<Rightarrow> IntNull | _ \<Rightarrow> IntInvalid)"

definition sample_env :: env where
  "sample_env = \<lparr>api = sample_api, connect_error = None, driver = (\<lambda>n. Done n), to_int = sample_to_int\<rparr>"

definition empty_db :: database where
  "empty_db = (\<lambda>tbl. Map.empty)"

definition sample_gameweek :: jv where
  "sample_gameweek =
     JObj [(''gameweekId'', JNum 5), (''elements'', JArr [sample_live_row, sample_second_row])]"

text \<open>The same season with a server that rejects every statement.\<close>

definition failing_env :: env where
  "failing_env = sample_env\<lparr>driver := (\<lambda>n. RequestFailed ''deadlock victim'')\<rparr>"

text \<open>The same season with a connection that breaks during the first statement.\<close>

definition lost_env :: env where
  "lost_env = sample_env\<lparr>driver := (\<lambda>n. ConnectionLost ''ECONNRESET'')\<rparr>"

text \<open>The same season between two matches: the only fixture of the gameweek has finished.\<close>

definition quiet_api :: api where
  "quiet_api c u =
     (case u of
        FixturesOfEvent i \<Rightarrow>
          Resp (JArr [JObj [(''id'', JNum 41), (''started'', JBool True), (''finished'', JBool True)]])
      | _ \<Rightarrow> sample_api c u)"

definition quiet_env :: env where
  "quiet_env = sample_env\<lparr>api := quiet_api\<rparr>"

text \<open>A truncated bootstrap snapshot: 399 players.\<close>

definition short_bootstrap :: jv where
  "short_bootstrap =
     JObj [(''events'', JArr [sample_event]),
           (''teams'', JArr [sample_team]),
           (''element_types'', JArr [sample_position]),
           (''elements'', JArr (replicate 399 sample_player))]"

definition short_api :: api where
  "short_api c u =
     (case c of GetBootstrapData \<Rightarrow> Resp short_bootstrap | _ \<Rightarrow> sample_api c u)"

definition short_env :: env where
  "short_env = sample_env\<lparr>api := short_api\<rparr>"

text \<open>A snapshot that breaks two rules: no teams and no players.\<close>

definition hollow_bootstrap :: jv where
  "hollow_bootstrap =
     JObj [(''events'', JArr [sample_event]),
           (''teams'', JArr []),
           (''element_types'', JArr [sample_position]),
           (''elements'', JArr [])]"

text \<open>
  The same season with a server that rejects the 406th statement of the run, the live
  update of player 7.
\<close>

definition late_fail_env :: env where
  "late_fail_env =
     sample_env\<lparr>driver := (\<lambda>n. if n = 405 then RequestFailed ''Invalid number'' else Done n)\<rparr>"

section \<open>The live-state detector\<close>

text \<open>
  The two versions of \<open>checkIfGameIsLive\<close> agree on well-formed answers of the API, and both decide the same condition.
\<close>

lemma truthy_js_get: "truthy (js_get v k) \<Longrightarrow> truthy v"
  by (cases v) (auto split: if_splits)

lemma js_get_arr_truthy: "js_get v k = JArr xs \<Longrightarrow> truthy v"
  by (cases v) (auto split: if_splits)

lemma truthy_not_nullish: "truthy v \<Longrightarrow> \<not> nullish v"
  by (cases v) auto

lemma find_current_find:
  "\<forall>ev\<in>set events. \<not> nullish ev \<Longrightarrow>
   find_current events =
     Inr (case List.find (\<lambda>ev. truthy (js_get ev ''is_current'')) events of
            Some cur \<Rightarrow> cur | None \<Rightarrow> JUndefined)"
  by (induction events) auto

lemma filter_live_filter:
  "\<forall>f\<in>set fixtures. \<not> nullish f \<Longrightarrow> filter_live fixtures = Inr (filter is_live fixtures)"
  by (induction fixtures) auto

lemma find_Some_truthy:
  "List.find (\<lambda>ev. truthy (js_get ev ''is_current'')) events = Some cur \<Longrightarrow> truthy cur"
  by (auto simp: find_Some_iff dest: truthy_js_get)

lemma filter_nonempty: "(filter P xs \<noteq> []) = (\<exists>x\<in>set xs. P x)"
  by (induction xs) auto

text \<open>
  C1. When the bootstrap snapshot carries a list of events and the fixtures endpoint
  answers with a list of fixtures for the current gameweek (the first event whose
  \<open>is_current\<close> is set), the live-state check returns, without raising, whether a
  current gameweek exists and at least one fixture has \<open>started === true\<close> and
  \<open>finished === false\<close>. So with a current gameweek it returns true iff some fixture is
  live, it returns false on an empty fixture list, and it returns false when no event
  has \<open>is_current\<close> set. Both versions of the function in the repository agree.
\<close>

theorem live_check_decides:
  assumes boot: "get CheckIfGameIsLive BootstrapStatic = Resp data"
      and evs: "js_get data ''events'' = JArr events"
      and ev_ok: "\<forall>ev\<in>set events. \<not> nullish ev"
      and fx: "\<forall>cur. List.find (\<lambda>ev. truthy (js_get ev ''is_current'')) events = Some cur \<longrightarrow>
                 get CheckIfGameIsLive (FixturesOfEvent (js_get cur ''id'')) = Resp (JArr fixtures)"
      and fx_ok: "\<forall>f\<in>set fixtures. \<not> nullish f"
  shows "checkIfGameIsLive get =
           Inr ((\<exists>ev\<in>set events. truthy (js_get ev ''is_current'')) \<and> (\<exists>f\<in>set fixtures. is_live f))
       \<and> checkIfGameIsLive_v1 get =
           Inr ((\<exists>ev\<in>set events. truthy (js_get ev ''is_current'')) \<and> (\<exists>f\<in>set fixtures. is_live f))"
proof (cases "List.find (\<lambda>ev. truthy (js_get ev ''is_current'')) events")
  case None
  then have no: "\<not> (\<exists>ev\<in>set events. truthy (js_get ev ''is_current''))"
    by (auto simp: find_None_iff)
  have t: "truthy data" using evs by (rule js_get_arr_truthy)
  then have nn: "\<not> nullish data" by (rule truthy_not_nullish)
  show ?thesis
    using no t nn None
    by (simp add: checkIfGameIsLive_def checkIfGameIsLive_v1_def boot evs find_current_find [OF ev_ok])
next
  case (Some cur)
  then have ex: "\<exists>ev\<in>set events. truthy (js_get ev ''is_current'')"
    by (auto simp: find_Some_iff)
  have tc: "truthy cur" using Some by (rule find_Some_truthy)
  have t: "truthy data" using evs by (rule js_get_arr_truthy)
  then have nn: "\<not> nullish data" by (rule truthy_not_nullish)
  have r: "get CheckIfGameIsLive (FixturesOfEvent (js_get cur ''id'')) = Resp (JArr fixtures)"
    using fx Some by blast
  show ?thesis
    using ex tc t nn Some
    by (simp add: checkIfGameIsLive_def checkIfGameIsLive_v1_def boot evs r
        find_current_find [OF ev_ok] filter_live_filter [OF fx_ok] filter_nonempty)
qed

theorem live_check_decides_witness:
  "checkIfGameIsLive sample_api = Inr True \<and> checkIfGameIsLive_v1 sample_api = Inr True"
  using live_check_decides [of sample_api sample_bootstrap "[sample_event]" "[sample_fixture]"]
  by (simp add: sample_api_def sample_bootstrap_def sample_event_def sample_fixture_def is_live_def)

section \<open>The validator\<close>

text \<open>
  What \<open>validateData\<close> prints: the reasons and warnings of its console lines, and the one reason it stops at.
\<close>

lemma reported_reasons_append [simp]:
  "reported_reasons (xs @ ys) = reported_reasons xs @ reported_reasons ys"
  by (induction xs rule: reported_reasons.induct) auto

lemma reported_warnings_append [simp]:
  "reported_warnings (xs @ ys) = reported_warnings xs @ reported_warnings ys"
  by (induction xs rule: reported_warnings.induct) auto

lemma reported_reasons_passed [simp]: "reported_reasons validation_passed_lines = []"
  by (simp add: validation_passed_lines_def)

lemma reported_warnings_passed [simp]: "reported_warnings validation_passed_lines = []"
  by (simp add: validation_passed_lines_def)

lemma validateData_silent_iff:
  "fst (validateData bd gd fd) \<longleftrightarrow> reported_reasons (snd (validateData bd gd fd)) = []"
  by (simp add: validateData_def Let_def)

lemma validateData_few_players:
  assumes "js_get bd ''elements'' = JArr players" "length players < 400"
  shows "\<not> fst (validateData bd gd fd)"
  using assms by (simp add: validateData_def Let_def minPlayersCount_def)

text \<open>
  C3 as the code has it. The validator returns a boolean and checks its rules in a fixed
  order; at the first violated rule it reports that rule's reason and returns false. So
  it reports exactly the first of the violated reasons, and it returns true iff no rule
  is violated.
\<close>

theorem validator_reports_first_reason:
  "reported_reasons (snd (validateData bd gd fd)) = take 1 (spec_violations bd gd fd)
   \<and> fst (validateData bd gd fd) = (spec_violations bd gd fd = [])"
  by (simp add: validateData_def spec_violations_def Let_def)

theorem validator_reports_first_reason_witness:
  "reported_reasons (snd (validateData hollow_bootstrap sample_gameweek (JArr [sample_fixture])))
     = [''Invalid or empty teams data'']
   \<and> fst (validateData hollow_bootstrap sample_gameweek (JArr [sample_fixture])) = False"
  using validator_reports_first_reason [of hollow_bootstrap sample_gameweek "JArr [sample_fixture]"]
  by (simp add: spec_violations_def hollow_bootstrap_def invalid_or_empty_def)

text \<open>
  C3 as the specification states it fails: the snapshot without teams and without
  players violates two rules (three reasons apply), and the validator reports only the
  first.
\<close>

theorem validator_collects_all_reasons_counterexample:
  "\<not> set (spec_violations hollow_bootstrap sample_gameweek (JArr [sample_fixture]))
       \<subseteq> set (reported_reasons (snd (validateData hollow_bootstrap sample_gameweek (JArr [sample_fixture]))))"
  by (simp add: validateData_def spec_violations_def hollow_bootstrap_def invalid_or_empty_def
      sample_gameweek_def sample_live_row_def sample_fixture_def minPlayersCount_def)

section \<open>The discipline of the request log\<close>

text \<open>
  Every step of the write adds its own requests to the log, in the order of the phases, and a request that stops the run is the last one sent.
\<close>

lemma execSql_cases:
  obtains (ok) d where "execSql e req w = (Return (), logged req Succeeded (w\<lparr>db := d\<rparr>))"
  | (failed) m where "execSql e req w = (Throw (RequestError m), logged req Failed w)"
  | (lost) m where "execSql e req w = (Abort (ConnectionError m), logged req Lost w)"
proof (cases "driver e (length (requests w))")
  case (Done t)
  then show ?thesis
    by (cases "apply_query e req t (db w)") (auto simp: execSql_def intro: ok failed)
next
  case (RequestFailed m)
  then show ?thesis by (auto simp: execSql_def intro: failed)
next
  case (ConnectionLost m)
  then show ?thesis by (auto simp: execSql_def intro: lost)
qed

lemma step_log_Nil: "step_log lo hi w (r, w) []"
  by (simp add: step_log_def)

lemma step_log_last:
  assumes "lo \<le> write_phase req" "write_phase req \<le> hi" "\<And>v. r \<noteq> Return v"
  shows "step_log lo hi w (r, logged req s w) [(req, s)]"
  using assms by (simp add: step_log_def logged_def)

lemma step_log_Cons:
  assumes tl: "step_log lo hi (logged req s (w\<lparr>db := d\<rparr>)) R rs"
      and ph: "write_phase req = lo"
      and ok: "\<not> stops_run (req, s)"
      and le: "lo \<le> hi"
  shows "step_log lo hi w R ((req, s) # rs)"
proof -
  have bl: "set (butlast ((req, s) # rs)) \<subseteq> insert (req, s) (set (butlast rs))"
    by (cases rs) auto
  have lo_le: "\<forall>q\<in>set rs. lo \<le> write_phase (fst q)"
    using tl by (simp add: step_log_def)
  show ?thesis
    using tl ph ok bl lo_le le by (auto simp: step_log_def logged_def)
qed

lemma step_logD:
  assumes "step_log lo hi w R rs"
  shows "requests (snd R) = requests w @ rs"
    and "connects (snd R) = connects w"
    and "closes (snd R) = closes w"
    and "\<And>q. q \<in> set rs \<Longrightarrow> lo \<le> write_phase (fst q)"
    and "\<And>q. q \<in> set rs \<Longrightarrow> write_phase (fst q) \<le> hi"
    and "sorted (map (\<lambda>q. write_phase (fst q)) rs)"
    and "\<And>q. q \<in> set (butlast rs) \<Longrightarrow> \<not> stops_run q"
    and "\<And>v q. fst R = Return v \<Longrightarrow> q \<in> set rs \<Longrightarrow> \<not> stops_run q"
  using assms unfolding step_log_def by blast+

lemma step_logI:
  assumes "requests (snd R) = requests w @ rs"
    and "connects (snd R) = connects w"
    and "closes (snd R) = closes w"
    and "\<And>q. q \<in> set rs \<Longrightarrow> lo \<le> write_phase (fst q) \<and> write_phase (fst q) \<le> hi"
    and "sorted (map (\<lambda>q. write_phase (fst q)) rs)"
    and "\<And>q. q \<in> set (butlast rs) \<Longrightarrow> \<not> stops_run q"
    and "\<And>v q. fst R = Return v \<Longrightarrow> q \<in> set rs \<Longrightarrow> \<not> stops_run q"
  shows "step_log lo hi w R rs"
  using assms unfolding step_log_def by blast

lemma step_log_result:
  assumes L: "step_log lo hi w (r, w') rs" and res: "\<And>v. r' = Return v \<Longrightarrow> \<exists>v. r = Return v"
  shows "step_log lo hi w (r', w') rs"
proof (rule step_logI)
  show "requests (snd (r', w')) = requests w @ rs" using step_logD(1) [OF L] by simp
  show "connects (snd (r', w')) = connects w" using step_logD(2) [OF L] by simp
  show "closes (snd (r', w')) = closes w" using step_logD(3) [OF L] by simp
  show "\<And>q. q \<in> set rs \<Longrightarrow> lo \<le> write_phase (fst q) \<and> write_phase (fst q) \<le> hi"
    using step_logD(4,5) [OF L] by blast
  show "sorted (map (\<lambda>q. write_phase (fst q)) rs)" by (rule step_logD(6) [OF L])
  show "\<And>q. q \<in> set (butlast rs) \<Longrightarrow> \<not> stops_run q" by (rule step_logD(7) [OF L])
  show "\<And>v q. fst (r', w') = Return v \<Longrightarrow> q \<in> set rs \<Longrightarrow> \<not> stops_run q"
  proof -
    fix v q assume "fst (r', w') = Return v" and q: "q \<in> set rs"
    then have "r' = Return v" by simp
    then obtain v' where "r = Return v'" using res by blast
    then have "fst (r, w') = Return v'" by simp
    then show "\<not> stops_run q" using q by (rule step_logD(8) [OF L])
  qed
qed

lemma step_log_widen:
  assumes L: "step_log a b w R rs" and "a' \<le> a" "b \<le> b'"
  shows "step_log a' b' w R rs"
proof (rule step_logI)
  show "\<And>q. q \<in> set rs \<Longrightarrow> a' \<le> write_phase (fst q) \<and> write_phase (fst q) \<le> b'"
    using step_logD(4,5) [OF L] assms(2,3) by (meson order_trans)
qed (use step_logD [OF L] in blast)+

lemma step_log_append:
  assumes f: "step_log a b w (Return (), w1) rs1"
      and g: "step_log c d w1 R rs2"
      and ord: "b \<le> c"
  shows "step_log (min a c) (max b d) w R (rs1 @ rs2)"
proof (rule step_logI)
  have clean1: "\<And>q. q \<in> set rs1 \<Longrightarrow> \<not> stops_run q"
    using step_logD(8) [OF f] by simp
  show "requests (snd R) = requests w @ rs1 @ rs2"
    using step_logD(1) [OF f] step_logD(1) [OF g] by simp
  show "connects (snd R) = connects w"
    using step_logD(2) [OF f] step_logD(2) [OF g] by simp
  show "closes (snd R) = closes w"
    using step_logD(3) [OF f] step_logD(3) [OF g] by simp
  show "\<And>q. q \<in> set (rs1 @ rs2) \<Longrightarrow> min a c \<le> write_phase (fst q) \<and> write_phase (fst q) \<le> max b d"
  proof -
    fix q assume "q \<in> set (rs1 @ rs2)"
    then consider "q \<in> set rs1" | "q \<in> set rs2" by auto
    then show "min a c \<le> write_phase (fst q) \<and> write_phase (fst q) \<le> max b d"
    proof cases
      case 1
      from step_logD(4) [OF f 1] step_logD(5) [OF f 1] show ?thesis
        by (simp add: min_le_iff_disj le_max_iff_disj)
    next
      case 2
      from step_logD(4) [OF g 2] step_logD(5) [OF g 2] show ?thesis
        by (simp add: min_le_iff_disj le_max_iff_disj)
    qed
  qed
  show "sorted (map (\<lambda>q. write_phase (fst q)) (rs1 @ rs2))"
  proof -
    have "\<forall>x\<in>set rs1. \<forall>y\<in>set rs2. write_phase (fst x) \<le> write_phase (fst y)"
      using step_logD(5) [OF f] step_logD(4) [OF g] ord by (meson order_trans)
    then show ?thesis
      using step_logD(6) [OF f] step_logD(6) [OF g] by (simp add: sorted_append)
  qed
  show "\<And>q. q \<in> set (butlast (rs1 @ rs2)) \<Longrightarrow> \<not> stops_run q"
  proof -
    fix q assume q: "q \<in> set (butlast (rs1 @ rs2))"
    show "\<not> stops_run q"
    proof (cases "rs2 = []")
      case True
      then have "q \<in> set rs1" using q by (auto dest: in_set_butlastD)
      then show ?thesis by (rule clean1)
    next
      case False
      then have "q \<in> set rs1 \<or> q \<in> set (butlast rs2)" using q by (simp add: butlast_append)
      then show ?thesis using clean1 step_logD(7) [OF g] by blast
    qed
  qed
  show "\<And>v q. fst R = Return v \<Longrightarrow> q \<in> set (rs1 @ rs2) \<Longrightarrow> \<not> stops_run q"
    using clean1 step_logD(8) [OF g] by auto
qed

lemma upsert_each_log:
  assumes mk: "\<forall>x r. mk x = Inr r \<longrightarrow> write_phase r = p \<and> is_reference_upsert r"
  shows "\<exists>rs. step_log p p w (upsert_each e mk xs w) rs"
proof (induction xs arbitrary: w)
  case Nil
  show ?case by (auto intro!: exI step_log_Nil)
next
  case (Cons x xs)
  show ?case
  proof (cases "mk x")
    case (Inl err)
    then show ?thesis by (auto intro!: exI step_log_Nil)
  next
    case (Inr req)
    then have ph: "write_phase req = p" using mk by blast
    show ?thesis
    proof (cases e req w rule: execSql_cases)
      case (ok d)
      let ?w = "logged req Succeeded (w\<lparr>db := d\<rparr>)"
      have eq: "upsert_each e mk (x # xs) w = upsert_each e mk xs ?w"
        using Inr ok by simp
      from Cons.IH [of ?w] obtain rs where "step_log p p ?w (upsert_each e mk xs ?w) rs" ..
      then have "step_log p p w (upsert_each e mk xs ?w) ((req, Succeeded) # rs)"
        using ph by (rule step_log_Cons) (simp_all add: stops_run_def)
      then show ?thesis unfolding eq ..
    next
      case (failed m)
      have eq: "upsert_each e mk (x # xs) w = (Throw (RequestError m), logged req Failed w)"
        using Inr failed by simp
      have "step_log p p w (Throw (RequestError m), logged req Failed w) [(req, Failed)]"
        by (rule step_log_last) (use ph in auto)
      then show ?thesis unfolding eq ..
    next
      case (lost m)
      have eq: "upsert_each e mk (x # xs) w = (Abort (ConnectionError m), logged req Lost w)"
        using Inr lost by simp
      have "step_log p p w (Abort (ConnectionError m), logged req Lost w) [(req, Lost)]"
        by (rule step_log_last) (use ph in auto)
      then show ?thesis unfolding eq ..
    qed
  qed
qed

lemma stats_request_phase:
  "stats_request x = Inr req \<Longrightarrow> write_phase req = 5 \<and> \<not> is_reference_upsert req"
  by (auto simp: stats_request_def write_phase_def is_reference_upsert_def Let_def split: if_splits)

lemma stats_loop_log: "\<exists>rs. step_log 5 5 w (stats_loop e xs uc ec w) rs"
proof (induction xs arbitrary: uc ec w)
  case Nil
  show ?case by (auto intro!: exI step_log_Nil)
next
  case (Cons x xs)
  show ?case
  proof (cases "nullish x")
    case True
    then show ?thesis by (auto intro!: exI step_log_Nil)
  next
    case nn: False
    show ?thesis
    proof (cases "stats_request x")
      case (Inl err)
      then have eq: "stats_loop e (x # xs) uc ec w = stats_loop e xs uc (ec + 1) w"
        using nn by simp
      show ?thesis unfolding eq by (rule Cons.IH)
    next
      case (Inr req)
      then have ph: "write_phase req = 5" and nr: "\<not> is_reference_upsert req"
        using stats_request_phase by blast+
      show ?thesis
      proof (cases e req w rule: execSql_cases)
        case (ok d)
        let ?w = "logged req Succeeded (w\<lparr>db := d\<rparr>)"
        have eq: "stats_loop e (x # xs) uc ec w = stats_loop e xs (uc + 1) ec ?w"
          using Inr ok nn by simp
        from Cons.IH [of ?w "uc + 1" ec] obtain rs
          where "step_log 5 5 ?w (stats_loop e xs (uc + 1) ec ?w) rs" ..
        then have "step_log 5 5 w (stats_loop e xs (uc + 1) ec ?w) ((req, Succeeded) # rs)"
          using ph by (rule step_log_Cons) (simp_all add: stops_run_def)
        then show ?thesis unfolding eq ..
      next
        case (failed m)
        let ?w = "logged req Failed w"
        have eq: "stats_loop e (x # xs) uc ec w = stats_loop e xs uc (ec + 1) ?w"
          using Inr failed nn by simp
        have w: "?w = logged req Failed (w\<lparr>db := db w\<rparr>)" by simp
        from Cons.IH [of ?w uc "ec + 1"] obtain rs
          where "step_log 5 5 ?w (stats_loop e xs uc (ec + 1) ?w) rs" ..
        then have "step_log 5 5 (logged req Failed (w\<lparr>db := db w\<rparr>)) (stats_loop e xs uc (ec + 1) ?w) rs"
          by simp
        then have "step_log 5 5 w (stats_loop e xs uc (ec + 1) ?w) ((req, Failed) # rs)"
          using ph by (rule step_log_Cons) (simp_all add: stops_run_def nr)
        then show ?thesis unfolding eq ..
      next
        case (lost m)
        have eq: "stats_loop e (x # xs) uc ec w = (Abort (ConnectionError m), logged req Lost w)"
          using Inr lost nn by simp
        have "step_log 5 5 w (Abort (ConnectionError m) :: (nat \<times> nat) result, logged req Lost w) [(req, Lost)]"
          by (rule step_log_last) (use ph in auto)
        then show ?thesis unfolding eq ..
      qed
    qed
  qed
qed

lemma updatePlayerStats_stats_loop:
  assumes "xs \<noteq> []" "stats_loop e xs 0 0 w = (r, w')"
  shows "\<exists>r'. updatePlayerStats e xs w = (r', w') \<and> (\<forall>v. r' = Return v \<longrightarrow> (\<exists>v. r = Return v))"
proof (cases r)
  case (Return p)
  then show ?thesis using assms by (cases p) (simp add: updatePlayerStats_def)
next
  case (Throw err)
  then show ?thesis using assms by (simp add: updatePlayerStats_def)
next
  case (Abort err)
  then show ?thesis using assms by (simp add: updatePlayerStats_def)
qed

lemma updatePlayerStats_log: "\<exists>rs. step_log 5 5 w (updatePlayerStats e xs w) rs"
proof (cases "xs = []")
  case True
  then show ?thesis by (auto simp: updatePlayerStats_def intro!: exI step_log_Nil)
next
  case False
  obtain r w' where L: "stats_loop e xs 0 0 w = (r, w')" by (cases "stats_loop e xs 0 0 w")
  from stats_loop_log [of w e xs 0 0] obtain rs where rs: "step_log 5 5 w (r, w') rs"
    unfolding L ..
  from updatePlayerStats_stats_loop [OF False L] obtain r' where U: "updatePlayerStats e xs w = (r', w')"
    and res: "\<And>v. r' = Return v \<Longrightarrow> \<exists>v. r = Return v"
    by blast
  from rs res have "step_log 5 5 w (r', w') rs" by (rule step_log_result)
  then show ?thesis unfolding U ..
qed

lemma then_await_Return: "fst (f w) = Return () \<Longrightarrow> then_await f g w = g (snd (f w))"
  by (cases "f w") (simp add: then_await_def)

lemma then_await_other: "fst (f w) \<noteq> Return () \<Longrightarrow> then_await f g w = f w"
  by (cases "f w"; cases "fst (f w)") (auto simp: then_await_def)

lemma then_await_ReturnD:
  assumes "fst (then_await f g w) = Return ()"
  shows "fst (f w) = Return ()" and "then_await f g w = g (snd (f w))"
proof -
  show 1: "fst (f w) = Return ()"
  proof (rule ccontr)
    assume "fst (f w) \<noteq> Return ()"
    then have "then_await f g w = f w" by (rule then_await_other)
    with assms \<open>fst (f w) \<noteq> Return ()\<close> show False by simp
  qed
  then show "then_await f g w = g (snd (f w))" by (rule then_await_Return)
qed

text \<open>A step whose log obeys the discipline from every world.\<close>

lemma then_await_log:
  assumes f: "\<And>w. \<exists>rs. step_log a b w (f w) rs"
      and g: "\<And>w. \<exists>rs. step_log c d w (g w) rs"
      and ord: "a \<le> b" "b \<le> c" "c \<le> d"
  shows "\<exists>rs. step_log a d w (then_await f g w) rs"
proof (cases "fst (f w) = Return ()")
  case False
  then have eq: "then_await f g w = f w" by (rule then_await_other)
  from f [of w] obtain rs where "step_log a b w (f w) rs" ..
  then have "step_log a d w (f w) rs" by (rule step_log_widen) (use ord in auto)
  then show ?thesis unfolding eq ..
next
  case True
  then have eq: "then_await f g w = g (snd (f w))" by (rule then_await_Return)
  have fw: "f w = (Return (), snd (f w))" using True by (cases "f w") simp
  from f [of w] obtain rs1 where "step_log a b w (f w) rs1" ..
  then have 1: "step_log a b w (Return (), snd (f w)) rs1" using fw by simp
  from g [of "snd (f w)"] obtain rs2 where 2: "step_log c d (snd (f w)) (g (snd (f w))) rs2" ..
  from 1 2 ord(2) have "step_log (min a c) (max b d) w (g (snd (f w))) (rs1 @ rs2)"
    by (rule step_log_append)
  moreover have "min a c = a" "max b d = d" using ord by auto
  ultimately have "step_log a d w (g (snd (f w))) (rs1 @ rs2)" by simp
  then show ?thesis unfolding eq ..
qed

lemma team_request_phase: "team_request x = Inr r \<Longrightarrow> write_phase r = 0 \<and> is_reference_upsert r"
  by (auto simp: team_request_def write_phase_def is_reference_upsert_def split: if_splits)

lemma element_type_request_phase: "element_type_request x = Inr r \<Longrightarrow> write_phase r = 1 \<and> is_reference_upsert r"
  by (auto simp: element_type_request_def write_phase_def is_reference_upsert_def split: if_splits)

lemma event_request_phase: "event_request x = Inr r \<Longrightarrow> write_phase r = 2 \<and> is_reference_upsert r"
  by (auto simp: event_request_def write_phase_def is_reference_upsert_def split: if_splits)

lemma fixture_request_phase: "fixture_request x = Inr r \<Longrightarrow> write_phase r = 3 \<and> is_reference_upsert r"
  by (auto simp: fixture_request_def write_phase_def is_reference_upsert_def split: if_splits)

lemma player_request_phase: "player_request x = Inr r \<Longrightarrow> write_phase r = 4 \<and> is_reference_upsert r"
  by (auto simp: player_request_def write_phase_def is_reference_upsert_def split: if_splits)

lemma updateTeams_log: "\<exists>rs. step_log 0 0 w (updateTeams e xs w) rs"
  unfolding updateTeams_def by (rule upsert_each_log) (auto dest: team_request_phase)

lemma updateElementTypes_log: "\<exists>rs. step_log 1 1 w (updateElementTypes e xs w) rs"
  unfolding updateElementTypes_def by (rule upsert_each_log) (auto dest: element_type_request_phase)

lemma updateEvents_log: "\<exists>rs. step_log 2 2 w (updateEvents e xs w) rs"
  unfolding updateEvents_def by (rule upsert_each_log) (auto dest: event_request_phase)

lemma updateFixtures_log: "\<exists>rs. step_log 3 3 w (updateFixtures e xs w) rs"
  unfolding updateFixtures_def by (rule upsert_each_log) (auto dest: fixture_request_phase)

lemma updatePlayers_log: "\<exists>rs. step_log 4 4 w (updatePlayers e xs w) rs"
  unfolding updatePlayers_def by (rule upsert_each_log) (auto dest: player_request_phase)

lemma reference_upserts_log: "\<exists>rs. step_log 0 4 w (reference_upserts e bd fd w) rs"
proof -
  let ?players = "updatePlayers e (elements_of (js_get bd ''elements''))"
  let ?fixtures = "then_await (updateFixtures e (elements_of fd)) ?players"
  let ?events = "then_await (updateEvents e (elements_of (js_get bd ''events''))) ?fixtures"
  let ?types = "then_await (updateElementTypes e (elements_of (js_get bd ''element_types''))) ?events"
  have 3: "\<exists>rs. step_log 3 4 w (?fixtures w) rs" for w
    by (rule then_await_log [where b = 3 and c = 4, OF updateFixtures_log updatePlayers_log]) simp_all
  have 2: "\<exists>rs. step_log 2 4 w (?events w) rs" for w
    by (rule then_await_log [where b = 2 and c = 3, OF updateEvents_log 3]) simp_all
  have 1: "\<exists>rs. step_log 1 4 w (?types w) rs" for w
    by (rule then_await_log [where b = 1 and c = 2, OF updateElementTypes_log 2]) simp_all
  show ?thesis
    unfolding reference_upserts_def
    by (rule then_await_log [where b = 0 and c = 1, OF updateTeams_log 1]) simp_all
qed

lemma try_block_log:
  "\<exists>rs. step_log 0 5 w (then_await (reference_upserts e bd fd) (updatePlayerStats e xs) w) rs"
  by (rule then_await_log [where b = 4 and c = 5, OF reference_upserts_log updatePlayerStats_log]) simp_all

section \<open>The paths of a run\<close>

text \<open>
  The ways through \<open>main\<close> and \<open>updateDatabase\<close>, and what each leaves in the request log.
\<close>

text \<open>The run either leaves the world alone or goes through updateDatabase.\<close>

lemma main_cases:
  obtains (skip) "snd (main e w) = w"
      "fst (main e w) = (if checkIfGameIsLive (api e) = Inr False then 0 else 1)"
  | (persist) bd gd fd where
      "checkIfGameIsLive (api e) = Inr True"
      "getBootstrapData (api e) = Inr bd"
      "getCurrentGameweekData (api e) = Inr gd"
      "getFixturesData (api e) = Inr fd"
      "fst (validateData bd gd fd)"
      "main e w = (if fst (updateDatabase e bd gd fd w) = Return () then 0 else 1,
                   snd (updateDatabase e bd gd fd w))"
proof (cases "checkIfGameIsLive (api e)")
  case (Inl err)
  then show ?thesis by (intro skip) (simp_all add: main_def)
next
  case live: (Inr isGameLive)
  show ?thesis
  proof (cases isGameLive)
    case False
    then show ?thesis using live by (intro skip) (simp_all add: main_def)
  next
    case True
    show ?thesis
    proof (cases "getBootstrapData (api e)")
      case (Inl err)
      then show ?thesis using live True by (intro skip) (simp_all add: main_def)
    next
      case bd: (Inr bd)
      show ?thesis
      proof (cases "getCurrentGameweekData (api e)")
        case (Inl err)
        then show ?thesis using live True bd by (intro skip) (simp_all add: main_def)
      next
        case gd: (Inr gd)
        show ?thesis
        proof (cases "getFixturesData (api e)")
          case (Inl err)
          then show ?thesis using live True bd gd by (intro skip) (simp_all add: main_def)
        next
          case fd: (Inr fd)
          show ?thesis
          proof (cases "fst (validateData bd gd fd)")
            case False
            then show ?thesis using live True bd gd fd by (intro skip) (simp_all add: main_def)
          next
            case valid: True
            obtain r w' where U: "updateDatabase e bd gd fd w = (r, w')"
              by (cases "updateDatabase e bd gd fd w")
            have "main e w = (if fst (updateDatabase e bd gd fd w) = Return () then 0 else 1,
                   snd (updateDatabase e bd gd fd w))"
              using live True bd gd fd valid U by (cases r) (simp_all add: main_def)
            with live True bd gd fd valid show ?thesis by (intro persist) simp_all
          qed
        qed
      qed
    qed
  qed
qed

lemma updateDatabase_cases:
  obtains (refused) m where "connect_error e = Some m"
      "updateDatabase e bd gd fd w = (Throw (ConnectionError m), connecting w)"
  | (closed) r w' rs where "connect_error e = None"
      "then_await (reference_upserts e bd fd) (updatePlayerStats e (elements_of (js_get gd ''elements''))) (connecting w) = (r, w')"
      "step_log 0 5 (connecting w) (r, w') rs"
      "\<And>err. r \<noteq> Abort err"
      "updateDatabase e bd gd fd w = (r, close_connection w')"
  | (lost) err w' rs where "connect_error e = None"
      "then_await (reference_upserts e bd fd) (updatePlayerStats e (elements_of (js_get gd ''elements''))) (connecting w) = (Abort err, w')"
      "step_log 0 5 (connecting w) (Abort err :: unit result, w') rs"
      "updateDatabase e bd gd fd w = (Abort err, w')"
proof (cases "connect_error e")
  case (Some m)
  then show ?thesis by (intro refused [of m]) (simp_all add: updateDatabase_def)
next
  case None
  let ?T = "then_await (reference_upserts e bd fd) (updatePlayerStats e (elements_of (js_get gd ''elements''))) (connecting w)"
  obtain r w' where T: "?T = (r, w')" by (cases ?T)
  from try_block_log [of "connecting w" e bd fd "elements_of (js_get gd ''elements'')"]
  obtain rs where rs: "step_log 0 5 (connecting w) (r, w') rs" unfolding T ..
  show ?thesis
  proof (cases r)
    case (Return u)
    then show ?thesis using None T rs by (intro closed [of r w' rs]) (simp_all add: updateDatabase_def)
  next
    case (Throw err)
    then show ?thesis using None T rs by (intro closed [of r w' rs]) (simp_all add: updateDatabase_def)
  next
    case (Abort err)
    then show ?thesis using None T rs by (intro lost [of err w' rs]) (simp_all add: updateDatabase_def)
  qed
qed

lemma updateDatabase_log:
  "\<exists>rs. requests (snd (updateDatabase e bd gd fd w)) = requests w @ rs
     \<and> sorted (map (\<lambda>q. write_phase (fst q)) rs)
     \<and> (\<forall>q\<in>set (butlast rs). \<not> stops_run q)
     \<and> (fst (updateDatabase e bd gd fd w) = Return () \<longrightarrow> (\<forall>q\<in>set rs. \<not> stops_run q))"
proof (cases rule: updateDatabase_cases [where e = e and bd = bd and gd = gd and fd = fd and w = w])
  case (refused m)
  show ?thesis unfolding refused(2) by (simp add: connecting_def)
next
  case (closed r w' rs)
  note L = closed(3)
  have "requests (snd (r, close_connection w')) = requests w @ rs"
    using step_logD(1) [OF L] by (simp add: connecting_def close_connection_def)
  moreover have "sorted (map (\<lambda>q. write_phase (fst q)) rs)" by (rule step_logD(6) [OF L])
  moreover have "\<forall>q\<in>set (butlast rs). \<not> stops_run q" using step_logD(7) [OF L] by blast
  moreover have "fst (r, close_connection w') = Return () \<longrightarrow> (\<forall>q\<in>set rs. \<not> stops_run q)"
    using step_logD(8) [OF L] by auto
  ultimately show ?thesis unfolding closed(5) by (intro exI [of _ rs] conjI)
next
  case (lost err w' rs)
  note L = lost(3)
  have "requests (snd (Abort err :: unit result, w')) = requests w @ rs"
    using step_logD(1) [OF L] by (simp add: connecting_def)
  moreover have "sorted (map (\<lambda>q. write_phase (fst q)) rs)" by (rule step_logD(6) [OF L])
  moreover have "\<forall>q\<in>set (butlast rs). \<not> stops_run q" using step_logD(7) [OF L] by blast
  ultimately show ?thesis unfolding lost(4) by auto
qed

lemma updateDatabase_connects:
  "connects (snd (updateDatabase e bd gd fd w)) = connects w + 1"
proof (cases rule: updateDatabase_cases [where e = e and bd = bd and gd = gd and fd = fd and w = w])
  case (refused m)
  then show ?thesis by (simp add: connecting_def)
next
  case (closed r w' rs)
  from step_logD(2) [OF closed(3)] show ?thesis
    by (simp add: closed(5) connecting_def close_connection_def)
next
  case (lost err w' rs)
  from step_logD(2) [OF lost(3)] show ?thesis
    by (simp add: lost(4) connecting_def)
qed

lemma main_log:
  obtains rs where "requests (snd (main e w)) = requests w @ rs"
    and "sorted (map (\<lambda>q. write_phase (fst q)) rs)"
    and "\<And>q. q \<in> set (butlast rs) \<Longrightarrow> \<not> stops_run q"
    and "\<And>q. fst (main e w) = 0 \<Longrightarrow> q \<in> set rs \<Longrightarrow> \<not> stops_run q"
proof (cases rule: main_cases [where e = e and w = w])
  case skip
  show ?thesis by (rule that [of "[]"]) (simp_all add: skip)
next
  case (persist bd gd fd)
  from updateDatabase_log [of e bd gd fd w] obtain rs where rs:
    "requests (snd (updateDatabase e bd gd fd w)) = requests w @ rs
     \<and> sorted (map (\<lambda>q. write_phase (fst q)) rs)
     \<and> (\<forall>q\<in>set (butlast rs). \<not> stops_run q)
     \<and> (fst (updateDatabase e bd gd fd w) = Return () \<longrightarrow> (\<forall>q\<in>set rs. \<not> stops_run q))" ..
  show ?thesis
  proof (rule that [of rs])
    show "requests (snd (main e w)) = requests w @ rs"
      using rs persist(6) by simp
    show "sorted (map (\<lambda>q. write_phase (fst q)) rs)" using rs by simp
    show "\<And>q. q \<in> set (butlast rs) \<Longrightarrow> \<not> stops_run q" using rs by simp
    show "\<And>q. fst (main e w) = 0 \<Longrightarrow> q \<in> set rs \<Longrightarrow> \<not> stops_run q"
    proof -
      fix q assume "fst (main e w) = 0" and q: "q \<in> set rs"
      then have "fst (updateDatabase e bd gd fd w) = Return ()"
        using persist(6) by (simp split: if_splits)
      then show "\<not> stops_run q" using rs q by simp
    qed
  qed
qed

lemma main_exit_code: "fst (main e w) = 0 \<or> fst (main e w) = 1"
  by (cases rule: main_cases [where e = e and w = w]) (auto split: if_splits)

section \<open>Runs on the sample season\<close>

text \<open>
  The sample environments evaluated: what is fetched, what is validated, and the first request of a write.
\<close>

lemma sample_is_live: "checkIfGameIsLive sample_api = Inr True"
  by (simp add: checkIfGameIsLive_def sample_api_def sample_bootstrap_def sample_event_def
      sample_fixture_def is_live_def)

lemma sample_bootstrap_fetched: "getBootstrapData sample_api = Inr sample_bootstrap"
  by (simp add: getBootstrapData_def sample_api_def sample_bootstrap_def)

lemma sample_gameweek_fetched: "getCurrentGameweekData sample_api = Inr sample_gameweek"
  by (simp add: getCurrentGameweekData_def sample_api_def sample_bootstrap_def sample_event_def
      sample_gameweek_def)

lemma sample_fixtures_fetched: "getFixturesData sample_api = Inr (JArr [sample_fixture])"
  by (simp add: getFixturesData_def sample_api_def)

lemma sample_is_valid: "fst (validateData sample_bootstrap sample_gameweek (JArr [sample_fixture]))"
  by (simp add: validateData_def sample_bootstrap_def sample_gameweek_def invalid_or_empty_def
      minPlayersCount_def)

lemma main_on_sample:
  assumes "api e = sample_api"
  shows "main e w =
     (if fst (updateDatabase e sample_bootstrap sample_gameweek (JArr [sample_fixture]) w) = Return ()
      then 0 else 1,
      snd (updateDatabase e sample_bootstrap sample_gameweek (JArr [sample_fixture]) w))"
proof -
  obtain r w' where U: "updateDatabase e sample_bootstrap sample_gameweek (JArr [sample_fixture]) w = (r, w')"
    by (cases "updateDatabase e sample_bootstrap sample_gameweek (JArr [sample_fixture]) w")
  show ?thesis
    using U by (cases r)
      (simp_all add: main_def assms sample_is_live sample_bootstrap_fetched sample_gameweek_fetched
        sample_fixtures_fetched sample_is_valid)
qed

lemma sample_teams: "js_get sample_bootstrap ''teams'' = JArr [sample_team]"
  by (simp add: sample_bootstrap_def)

lemma sample_team_request: "\<exists>req. team_request sample_team = Inr req \<and> is_reference_upsert req"
  by (simp add: team_request_def sample_team_def is_reference_upsert_def)

lemma sample_rows:
  "\<not> nullish sample_live_row" "\<not> nullish sample_second_row"
  "\<exists>req. stats_request sample_live_row = Inr req"
  "\<exists>req. stats_request sample_second_row = Inr req"
  "js_get sample_live_row ''id'' = JNum 999" "js_get sample_second_row ''id'' = JNum 7"
  "js_get sample_gameweek ''elements'' = JArr [sample_live_row, sample_second_row]"
  by (simp_all add: sample_live_row_def sample_second_row_def stats_request_def sample_gameweek_def)

text \<open>The run of the sample season when the first statement is refused or the connection breaks.\<close>

lemma updateDatabase_first_refused:
  assumes e: "connect_error e = None" "driver e (length (requests w)) = RequestFailed m"
      and t: "js_get bd ''teams'' = JArr (team # teams)" "team_request team = Inr req"
  shows "updateDatabase e bd gd fd w
           = (Throw (RequestError m), close_connection (logged req Failed (connecting w)))"
  using assms
  by (simp add: updateDatabase_def reference_upserts_def then_await_def updateTeams_def
      execSql_def connecting_def logged_def)

lemma updateDatabase_first_lost:
  assumes e: "connect_error e = None" "driver e (length (requests w)) = ConnectionLost m"
      and t: "js_get bd ''teams'' = JArr (team # teams)" "team_request team = Inr req"
  shows "updateDatabase e bd gd fd w
           = (Abort (ConnectionError m), logged req Lost (connecting w))"
  using assms
  by (simp add: updateDatabase_def reference_upserts_def then_await_def updateTeams_def
      execSql_def connecting_def logged_def)

lemma lost_run:
  "main lost_env (fresh empty_db) =
     (1, logged (projr (team_request sample_team)) Lost (connecting (fresh empty_db)))"
proof -
  obtain req where req: "team_request sample_team = Inr req"
    using sample_team_request by blast
  have api: "api lost_env = sample_api" by (simp add: lost_env_def sample_env_def)
  have "updateDatabase lost_env sample_bootstrap sample_gameweek (JArr [sample_fixture]) (fresh empty_db)
          = (Abort (ConnectionError ''ECONNRESET''), logged req Lost (connecting (fresh empty_db)))"
    by (rule updateDatabase_first_lost [OF _ _ sample_teams req])
       (simp_all add: lost_env_def sample_env_def)
  then show ?thesis
    by (simp add: main_on_sample [OF api] req)
qed

lemma failing_run:
  "main failing_env (fresh empty_db) =
     (1, close_connection (logged (projr (team_request sample_team)) Failed (connecting (fresh empty_db))))"
proof -
  obtain req where req: "team_request sample_team = Inr req"
    using sample_team_request by blast
  have api: "api failing_env = sample_api" by (simp add: failing_env_def sample_env_def)
  have "updateDatabase failing_env sample_bootstrap sample_gameweek (JArr [sample_fixture]) (fresh empty_db)
          = (Throw (RequestError ''deadlock victim''),
             close_connection (logged req Failed (connecting (fresh empty_db))))"
    by (rule updateDatabase_first_refused [OF _ _ sample_teams req])
       (simp_all add: failing_env_def sample_env_def)
  then show ?thesis
    by (simp add: main_on_sample [OF api] req)
qed

lemma quiet_is_not_live: "checkIfGameIsLive (api quiet_env) = Inr False"
  by (simp add: quiet_env_def sample_env_def quiet_api_def checkIfGameIsLive_def sample_api_def
      sample_bootstrap_def sample_event_def is_live_def)

lemma short_is_live: "checkIfGameIsLive (api short_env) = Inr True"
  by (simp add: short_env_def sample_env_def short_api_def checkIfGameIsLive_def sample_api_def
      sample_bootstrap_def sample_event_def sample_fixture_def is_live_def)

lemma short_fetched: "getBootstrapData (api short_env) = Inr short_bootstrap"
  by (simp add: short_env_def sample_env_def short_api_def getBootstrapData_def short_bootstrap_def)

section \<open>The decisions of the orchestrator\<close>

text \<open>
  The skip when no match is live, the validation gate, and the order of the writes.
\<close>

text \<open>
  C5. When the live-state check returns false the run ends with exit code 0 and leaves
  the world as it found it: no connection is opened, no request is sent, no row is
  changed. And the check stands before every write path: a run that changed anything has
  seen the check return true.
\<close>

theorem no_live_game_is_a_no_op:
  "(checkIfGameIsLive (api e) = Inr False \<longrightarrow> main e w = (0, w))
   \<and> (snd (main e w) \<noteq> w \<longrightarrow> checkIfGameIsLive (api e) = Inr True)"
proof (cases rule: main_cases [where e = e and w = w])
  case skip
  then show ?thesis by (cases "main e w") auto
next
  case (persist bd gd fd)
  then show ?thesis by simp
qed

theorem no_live_game_is_a_no_op_witness:
  "main quiet_env (fresh empty_db) = (0, fresh empty_db)
   \<and> checkIfGameIsLive (api lost_env) = Inr True"
proof -
  have changed: "snd (main lost_env (fresh empty_db)) \<noteq> fresh empty_db"
  proof
    assume "snd (main lost_env (fresh empty_db)) = fresh empty_db"
    then have "connects (snd (main lost_env (fresh empty_db))) = connects (fresh empty_db)" by simp
    then show False unfolding lost_run by (simp add: logged_def connecting_def)
  qed
  from no_live_game_is_a_no_op [of quiet_env "fresh empty_db"] quiet_is_not_live
  have "main quiet_env (fresh empty_db) = (0, fresh empty_db)" by blast
  moreover from no_live_game_is_a_no_op [of lost_env "fresh empty_db"] changed
  have "checkIfGameIsLive (api lost_env) = Inr True" by blast
  ultimately show ?thesis ..
qed

text \<open>
  C4. A bootstrap snapshot with fewer than 400 players fails validation, whatever the
  other snapshots are, and a reason is reported. A run that fetched such a snapshot
  leaves the world as it found it (no connection, no request, no row changed), and
  unless the live-state check ended the run as a skip before the snapshot was looked at,
  the exit status is 1.
\<close>

theorem too_few_players_blocks_the_write:
  assumes "js_get bd ''elements'' = JArr players" "length players < 400"
  shows "\<not> fst (validateData bd gd fd)
       \<and> reported_reasons (snd (validateData bd gd fd)) \<noteq> []
       \<and> (getBootstrapData (api e) = Inr bd \<longrightarrow>
            snd (main e w) = w \<and> (checkIfGameIsLive (api e) \<noteq> Inr False \<longrightarrow> fst (main e w) = 1))"
proof -
  have invalid: "\<not> fst (validateData bd gd fd)" for gd fd
    using assms by (rule validateData_few_players)
  have reason: "reported_reasons (snd (validateData bd gd fd)) \<noteq> []"
    using invalid [of gd fd] by (simp add: validateData_silent_iff)
  have run: "snd (main e w) = w \<and> (checkIfGameIsLive (api e) \<noteq> Inr False \<longrightarrow> fst (main e w) = 1)"
    if fetched: "getBootstrapData (api e) = Inr bd"
  proof (cases rule: main_cases [where e = e and w = w])
    case skip
    then show ?thesis by simp
  next
    case (persist bd' gd' fd')
    then have "fst (validateData bd gd' fd')" using fetched by simp
    then show ?thesis using invalid by blast
  qed
  show ?thesis using invalid reason run by blast
qed

theorem too_few_players_blocks_the_write_witness:
  "main short_env (fresh empty_db) = (1, fresh empty_db)"
proof -
  have "js_get short_bootstrap ''elements'' = JArr (replicate 399 sample_player)"
    by (simp add: short_bootstrap_def)
  moreover have "length (replicate 399 sample_player) < 400" by simp
  ultimately have "snd (main short_env (fresh empty_db)) = fresh empty_db
    \<and> (checkIfGameIsLive (api short_env) \<noteq> Inr False \<longrightarrow> fst (main short_env (fresh empty_db)) = 1)"
    using too_few_players_blocks_the_write [of short_bootstrap "replicate 399 sample_player" JNull JNull
        short_env "fresh empty_db"] short_fetched
    by blast
  then show ?thesis using short_is_live by (cases "main short_env (fresh empty_db)") simp
qed

text \<open>
  C9. A snapshot whose team list is not empty and does not have 20 entries passes
  validation when the other rules hold: no reason is reported, only the warning about
  the team count. The run then enters the write path: it opens the connection, and its
  exit status and final world are those of \<open>updateDatabase\<close>.
\<close>

theorem unusual_team_count_only_warns:
  assumes teams: "js_get bd ''teams'' = JArr teams" "teams \<noteq> []" "length teams \<noteq> 20"
      and players: "\<not> invalid_or_empty (js_get bd ''elements'')"
                   "\<not> length_below (js_get bd ''elements'') minPlayersCount"
      and events: "\<not> invalid_or_empty (js_get bd ''events'')"
      and types: "\<not> invalid_or_empty (js_get bd ''element_types'')"
      and gameweek: "truthy gd" "truthy (js_get gd ''gameweekId'')" "is_number (js_get gd ''gameweekId'')"
                    "\<not> invalid_or_empty (js_get gd ''elements'')"
      and fixtures: "\<not> invalid_or_empty fd"
  shows "fst (validateData bd gd fd)
       \<and> reported_reasons (snd (validateData bd gd fd)) = []
       \<and> ''Warning: Expected ${expectedTeamsCount} teams, but got ${bootstrapData.teams.length}''
            \<in> set (reported_warnings (snd (validateData bd gd fd)))
       \<and> (checkIfGameIsLive (api e) = Inr True \<and> getBootstrapData (api e) = Inr bd
            \<and> getCurrentGameweekData (api e) = Inr gd \<and> getFixturesData (api e) = Inr fd \<longrightarrow>
              main e w = (if fst (updateDatabase e bd gd fd w) = Return () then 0 else 1,
                          snd (updateDatabase e bd gd fd w))
              \<and> connects (snd (main e w)) = connects w + 1)"
proof -
  have bd: "truthy bd" using teams(1) by (rule js_get_arr_truthy)
  have t: "\<not> invalid_or_empty (js_get bd ''teams'')"
    using teams by (simp add: invalid_or_empty_def)
  have count: "js_get (js_get bd ''teams'') ''length'' \<noteq> JNum expectedTeamsCount"
    using teams by (simp add: expectedTeamsCount_def)
  have valid: "fst (validateData bd gd fd)"
    using bd t players events types gameweek fixtures by (simp add: validateData_def Let_def)
  have silent: "reported_reasons (snd (validateData bd gd fd)) = []"
    using valid by (simp add: validateData_silent_iff)
  have warned: "''Warning: Expected ${expectedTeamsCount} teams, but got ${bootstrapData.teams.length}''
            \<in> set (reported_warnings (snd (validateData bd gd fd)))"
    using bd t players events types gameweek fixtures count by (simp add: validateData_def Let_def)
  have run: "main e w = (if fst (updateDatabase e bd gd fd w) = Return () then 0 else 1,
                          snd (updateDatabase e bd gd fd w))
              \<and> connects (snd (main e w)) = connects w + 1"
    if reach: "checkIfGameIsLive (api e) = Inr True" "getBootstrapData (api e) = Inr bd"
       "getCurrentGameweekData (api e) = Inr gd" "getFixturesData (api e) = Inr fd"
  proof -
    obtain r w' where U: "updateDatabase e bd gd fd w = (r, w')"
      by (cases "updateDatabase e bd gd fd w")
    have m: "main e w = (if fst (updateDatabase e bd gd fd w) = Return () then 0 else 1,
                          snd (updateDatabase e bd gd fd w))"
      using reach valid U by (cases r) (simp_all add: main_def)
    show ?thesis using m updateDatabase_connects [of e bd gd fd w] by simp
  qed
  show ?thesis using valid silent warned run by blast
qed

theorem unusual_team_count_only_warns_witness:
  "fst (validateData sample_bootstrap sample_gameweek (JArr [sample_fixture]))
   \<and> connects (snd (main sample_env (fresh empty_db))) = 1"
proof -
  have api: "api sample_env = sample_api" by (simp add: sample_env_def)
  have h: "js_get sample_bootstrap ''teams'' = JArr [sample_team]" "[sample_team] \<noteq> []"
    "length [sample_team] \<noteq> 20"
    "\<not> invalid_or_empty (js_get sample_bootstrap ''elements'')"
    "\<not> length_below (js_get sample_bootstrap ''elements'') minPlayersCount"
    "\<not> invalid_or_empty (js_get sample_bootstrap ''events'')"
    "\<not> invalid_or_empty (js_get sample_bootstrap ''element_types'')"
    "truthy sample_gameweek" "truthy (js_get sample_gameweek ''gameweekId'')"
    "is_number (js_get sample_gameweek ''gameweekId'')"
    "\<not> invalid_or_empty (js_get sample_gameweek ''elements'')"
    "\<not> invalid_or_empty (JArr [sample_fixture])"
    by (simp_all add: sample_bootstrap_def sample_gameweek_def invalid_or_empty_def minPlayersCount_def)
  have reach: "checkIfGameIsLive (api sample_env) = Inr True \<and> getBootstrapData (api sample_env) = Inr sample_bootstrap
      \<and> getCurrentGameweekData (api sample_env) = Inr sample_gameweek
      \<and> getFixturesData (api sample_env) = Inr (JArr [sample_fixture])"
    by (simp add: api sample_is_live sample_bootstrap_fetched sample_gameweek_fetched
        sample_fixtures_fetched)
  from unusual_team_count_only_warns [OF h, of sample_env "fresh empty_db"] reach
  have "fst (validateData sample_bootstrap sample_gameweek (JArr [sample_fixture]))
      \<and> connects (snd (main sample_env (fresh empty_db))) = connects (fresh empty_db) + 1"
    by blast
  then show ?thesis by (simp add: fresh_def)
qed

text \<open>
  C6. In every run the requests reach the database in dependency order: the log is
  sorted by phase, so the merges of teams and position types come before those of
  players, the merges of gameweeks (and teams) before those of fixtures, and every
  merge-upsert before the first live update of a player. A reference upsert that did not
  succeed is the last request of the run, so no later table is written, and the run ends
  with exit status 1.
\<close>

theorem writes_follow_dependency_order:
  "sorted (map (\<lambda>q. write_phase (fst q)) (requests (snd (main e (fresh d)))))
   \<and> (\<forall>i < length (requests (snd (main e (fresh d)))).
         is_reference_upsert (fst (requests (snd (main e (fresh d))) ! i))
         \<and> snd (requests (snd (main e (fresh d))) ! i) \<noteq> Succeeded
       \<longrightarrow> Suc i = length (requests (snd (main e (fresh d)))) \<and> fst (main e (fresh d)) = 1)"
proof (rule main_log [of e "fresh d"])
  fix rs
  assume log: "requests (snd (main e (fresh d))) = requests (fresh d) @ rs"
    and srt: "sorted (map (\<lambda>q. write_phase (fst q)) rs)"
    and inner: "\<And>q. q \<in> set (butlast rs) \<Longrightarrow> \<not> stops_run q"
    and fin: "\<And>q. fst (main e (fresh d)) = 0 \<Longrightarrow> q \<in> set rs \<Longrightarrow> \<not> stops_run q"
  have eq: "requests (snd (main e (fresh d))) = rs" using log by (simp add: fresh_def)
  have tail: "Suc i = length rs \<and> fst (main e (fresh d)) = 1"
    if i: "i < length rs" and bad: "is_reference_upsert (fst (rs ! i))" "snd (rs ! i) \<noteq> Succeeded" for i
  proof -
    have stop: "stops_run (rs ! i)" using bad by (simp add: stops_run_def)
    have "\<not> i < length (butlast rs)"
    proof
      assume less: "i < length (butlast rs)"
      then have "butlast rs ! i \<in> set (butlast rs)" by (rule nth_mem)
      moreover have "butlast rs ! i = rs ! i" using less by (simp add: nth_butlast)
      ultimately have "rs ! i \<in> set (butlast rs)" by simp
      then show False using inner stop by blast
    qed
    then have last: "Suc i = length rs" using i by simp
    have "rs ! i \<in> set rs" using i by (rule nth_mem)
    then have "fst (main e (fresh d)) \<noteq> 0" using fin stop by blast
    then have "fst (main e (fresh d)) = 1" using main_exit_code [of e "fresh d"] by auto
    with last show ?thesis ..
  qed
  show ?thesis unfolding eq using srt tail by simp
qed

theorem writes_follow_dependency_order_witness:
  "length (requests (snd (main failing_env (fresh empty_db)))) = 1
   \<and> fst (main failing_env (fresh empty_db)) = 1"
proof -
  obtain req where req: "team_request sample_team = Inr req" and ref: "is_reference_upsert req"
    using sample_team_request by blast
  let ?rs = "requests (snd (main failing_env (fresh empty_db)))"
  have rs: "?rs = [(req, Failed)]"
    unfolding failing_run by (simp add: req logged_def connecting_def close_connection_def fresh_def)
  have prem: "0 < length ?rs" "is_reference_upsert (fst (?rs ! 0)) \<and> snd (?rs ! 0) \<noteq> Succeeded"
    by (simp_all add: rs ref)
  from writes_follow_dependency_order [of failing_env empty_db, THEN conjunct2, rule_format, OF prem]
  show ?thesis by simp
qed

section \<open>The connection\<close>

text \<open>
  Where the connection is closed, and the one path on which it is not.
\<close>

text \<open>
  Where the run leaves \<open>updateDatabase\<close> through the \<open>try\<close> or the \<open>catch\<close> of the \<open>connect\<close>
  handler, the connection that was opened is closed once.
\<close>

lemma connection_closed_by_try_and_catch:
  assumes "connect_error e = None" "\<And>err. fst (updateDatabase e bd gd fd w) \<noteq> Abort err"
  shows "closes (snd (updateDatabase e bd gd fd w)) = closes w + 1"
proof (cases rule: updateDatabase_cases [where e = e and bd = bd and gd = gd and fd = fd and w = w])
  case (refused m)
  then show ?thesis using assms by simp
next
  case (closed r w' rs)
  from step_logD(3) [OF closed(3)] show ?thesis
    by (simp add: closed(5) connecting_def close_connection_def)
next
  case (lost err w' rs)
  from assms(2) [of err] lost(4) show ?thesis by simp
qed

text \<open>
  C8 at the failing input: the sample season with a connection that raises its \<open>error\<close>
  event during the first statement. The run opened the connection, ends with exit
  status 1, and \<open>connection.close()\<close> was never called.
\<close>

theorem connection_error_event_skips_close:
  "fst (main lost_env (fresh empty_db)) = 1
   \<and> connects (snd (main lost_env (fresh empty_db))) = 1
   \<and> closes (snd (main lost_env (fresh empty_db))) = 0"
  unfolding lost_run by (simp add: logged_def connecting_def fresh_def)

section \<open>Merge-upsert\<close>

text \<open>
  The five reference upserts leave every row in a state that a second run on the same snapshot does not change, the timestamp put aside.
\<close>

lemma execSql_Return:
  assumes "fst (execSql e req w) = Return ()"
  obtains t d where "driver e (length (requests w)) = Done t"
    and "apply_query e req t (db w) = Some d"
    and "execSql e req w = (Return (), logged req Succeeded (w\<lparr>db := d\<rparr>))"
  using assms by (auto simp: execSql_def split: reply.splits option.splits)

lemma execSql_Done:
  assumes "driver e (length (requests w)) = Done t" "apply_query e req t (db w) = Some d"
  shows "execSql e req w = (Return (), logged req Succeeded (w\<lparr>db := d\<rparr>))"
  using assms by (simp add: execSql_def)

lemma apply_query_Merge:
  assumes "query req = Merge tbl S I" "apply_query e req t d = Some d'"
  obtains k where "key_of e req ''id'' = IntVal k"
    and "d' = d(tbl := (d tbl)(k \<mapsto>
           (case d tbl k of
              Some r \<Rightarrow> (set_columns S (params req) r)(''last_updated'' \<mapsto> Stamp t)
            | None \<Rightarrow> (set_columns I (params req) Map.empty)(''last_updated'' \<mapsto> Stamp t))))"
  using assms by (auto simp: apply_query_def split: sql_int.splits option.splits)

lemma apply_query_Merge_Some:
  assumes "query req = Merge tbl S I" "key_of e req ''id'' = IntVal k"
  shows "\<exists>d'. apply_query e req t d = Some d'"
  using assms by (simp add: apply_query_def split: option.splits)

lemma set_columns_untimed:
  "(set_columns S ps (r(''last_updated'' := None)))(''last_updated'' := None)
     = (set_columns S ps r)(''last_updated'' := None)"
  by (rule ext) (simp add: set_columns_def)

lemma untimed_Merge:
  assumes "query req = Merge tbl S I" "apply_query e req t d = Some d'"
      and "key_of e req ''id'' = IntVal k"
  shows "untimed d' = (untimed d)(tbl := (untimed d tbl)(k \<mapsto> merged_row S I (params req) (untimed d tbl k)))"
proof -
  from assms(1,2) obtain k' where k': "key_of e req ''id'' = IntVal k'"
    and d': "d' = d(tbl := (d tbl)(k' \<mapsto>
           (case d tbl k' of
              Some r \<Rightarrow> (set_columns S (params req) r)(''last_updated'' \<mapsto> Stamp t)
            | None \<Rightarrow> (set_columns I (params req) Map.empty)(''last_updated'' \<mapsto> Stamp t))))"
    by (rule apply_query_Merge)
  have kk: "k' = k" using k' assms(3) by simp
  show ?thesis
  proof (intro ext)
    fix tbl' j
    show "untimed d' tbl' j
        = ((untimed d)(tbl := (untimed d tbl)(k \<mapsto> merged_row S I (params req) (untimed d tbl k)))) tbl' j"
    proof (cases "tbl' = tbl \<and> j = k")
      case False
      then show ?thesis unfolding d' kk by (auto simp: untimed_def)
    next
      case True
      show ?thesis
      proof (cases "d tbl k")
        case None
        then show ?thesis using True unfolding d' kk by (simp add: untimed_def merged_row_def)
      next
        case (Some r)
        then show ?thesis using True unfolding d' kk
          by (simp add: untimed_def merged_row_def set_columns_untimed)
      qed
    qed
  qed
qed

lemma upsert_each_Cons_Return:
  assumes "fst (upsert_each e mk (x # xs) w) = Return ()"
  obtains req t d where "mk x = Inr req"
    and "driver e (length (requests w)) = Done t"
    and "apply_query e req t (db w) = Some d"
    and "upsert_each e mk (x # xs) w = upsert_each e mk xs (logged req Succeeded (w\<lparr>db := d\<rparr>))"
proof (cases "mk x")
  case (Inl err)
  then show ?thesis using assms by simp
next
  case (Inr req)
  show ?thesis
  proof (cases "fst (execSql e req w) = Return ()")
    case True
    then obtain t d where td: "driver e (length (requests w)) = Done t"
      "apply_query e req t (db w) = Some d"
      "execSql e req w = (Return (), logged req Succeeded (w\<lparr>db := d\<rparr>))"
      by (rule execSql_Return)
    show ?thesis by (rule that [OF Inr td(1,2)]) (simp add: Inr td(3))
  next
    case False
    obtain r w' where R: "execSql e req w = (r, w')" by (cases "execSql e req w")
    with False have "r \<noteq> Return ()" by simp
    then have "fst (upsert_each e mk (x # xs) w) \<noteq> Return ()"
      using Inr R by (cases r) auto
    then show ?thesis using assms by simp
  qed
qed

text \<open>A successful pass of merges, seen from one table and one key.\<close>

lemma upsert_each_rows:
  assumes mk: "\<forall>x req. mk x = Inr req \<longrightarrow> query req = Merge tbl S I"
      and ok: "fst (upsert_each e mk xs w) = Return ()"
  shows "untimed (db (snd (upsert_each e mk xs w))) tbl' k
           = (if tbl' = tbl then row_after e mk S I k xs (untimed (db w) tbl k)
              else untimed (db w) tbl' k)"
  using ok
proof (induction xs arbitrary: w)
  case Nil
  show ?case by simp
next
  case (Cons x xs)
  from Cons.prems obtain req t d where req: "mk x = Inr req"
    and d: "apply_query e req t (db w) = Some d"
    and eq: "upsert_each e mk (x # xs) w = upsert_each e mk xs (logged req Succeeded (w\<lparr>db := d\<rparr>))"
    by (rule upsert_each_Cons_Return)
  let ?w = "logged req Succeeded (w\<lparr>db := d\<rparr>)"
  have q: "query req = Merge tbl S I" using mk req by blast
  from q d obtain j where j: "key_of e req ''id'' = IntVal j"
    by (rule apply_query_Merge)
  have u: "untimed d = (untimed (db w))(tbl := (untimed (db w) tbl)(j \<mapsto> merged_row S I (params req) (untimed (db w) tbl j)))"
    using q d j by (rule untimed_Merge)
  have dbw: "db ?w = d" by (simp add: logged_def)
  have ok': "fst (upsert_each e mk xs ?w) = Return ()" using Cons.prems eq by simp
  have IH: "untimed (db (snd (upsert_each e mk xs ?w))) tbl' k
           = (if tbl' = tbl then row_after e mk S I k xs (untimed d tbl k) else untimed d tbl' k)"
    using Cons.IH [OF ok'] by (simp only: dbw)
  show ?case
    unfolding eq IH using req j by (simp add: u)
qed

lemma set_columns_twice: "set_columns S ps (set_columns S ps' r) = set_columns S ps r"
  by (rule ext) (simp add: set_columns_def)

lemma set_columns_absorbed:
  "set S \<subseteq> set I \<Longrightarrow> set_columns S ps (set_columns I ps r) = set_columns I ps r"
  by (rule ext) (auto simp: set_columns_def)

lemma merged_row_on_merged:
  "merged_row S I ps (Some (merged_row S I ps' (Some r))) = merged_row S I ps (Some r)"
  by (simp add: merged_row_def set_columns_untimed set_columns_twice)

lemma merged_row_settled:
  assumes "set S \<subseteq> set I"
  shows "merged_row S I ps (Some (merged_row S I ps old)) = merged_row S I ps old"
proof (cases old)
  case None
  then show ?thesis
    using assms by (simp add: merged_row_def set_columns_untimed set_columns_absorbed)
next
  case (Some r)
  then show ?thesis by (simp add: merged_row_on_merged)
qed

lemma row_after_untouched:
  "last_params e mk k xs = None \<Longrightarrow> row_after e mk S I k xs old = old"
  by (induction xs arbitrary: old) (auto split: option.splits sum.splits if_splits)

lemma row_after_Some:
  "row_after e mk S I k xs (Some r)
     = Some (case last_params e mk k xs of None \<Rightarrow> r | Some ps \<Rightarrow> merged_row S I ps (Some r))"
proof (induction xs arbitrary: r)
  case Nil
  show ?case by simp
next
  case (Cons x xs)
  show ?case
  proof (cases "mk x")
    case (Inl err)
    then show ?thesis using Cons.IH [of r] by (simp split: option.splits)
  next
    case (Inr req)
    show ?thesis
    proof (cases "key_of e req ''id'' = IntVal k")
      case False
      then show ?thesis using Inr Cons.IH [of r] by (simp split: option.splits)
    next
      case True
      then show ?thesis
        using Inr Cons.IH [of "merged_row S I (params req) (Some r)"]
        by (simp add: merged_row_on_merged split: option.splits)
    qed
  qed
qed

lemma row_after_settled:
  assumes sub: "set S \<subseteq> set I" and last: "last_params e mk k xs = Some ps"
  shows "\<exists>r. row_after e mk S I k xs old = Some r \<and> merged_row S I ps (Some r) = r"
  using last
proof (induction xs arbitrary: old)
  case Nil
  then show ?case by simp
next
  case (Cons x xs)
  show ?case
  proof (cases "last_params e mk k xs")
    case (Some ps')
    then have ps': "ps' = ps" using Cons.prems by simp
    from Cons.IH [OF Some [unfolded ps']] have IH:
      "\<exists>r. row_after e mk S I k xs old' = Some r \<and> merged_row S I ps (Some r) = r" for old'
      by blast
    show ?thesis
      by (cases "mk x") (simp_all add: IH)
  next
    case None
    with Cons.prems obtain req where req: "mk x = Inr req" "key_of e req ''id'' = IntVal k"
      "ps = params req"
      by (auto split: sum.splits if_splits)
    have "row_after e mk S I k (x # xs) old = Some (merged_row S I ps old)"
      using req None by (simp add: row_after_untouched)
    moreover have "merged_row S I ps (Some (merged_row S I ps old)) = merged_row S I ps old"
      using sub by (rule merged_row_settled)
    ultimately show ?thesis by simp
  qed
qed

lemma row_after_idempotent:
  assumes "set S \<subseteq> set I"
  shows "row_after e mk S I k xs (row_after e mk S I k xs old) = row_after e mk S I k xs old"
proof (cases "last_params e mk k xs")
  case None
  then show ?thesis by (simp add: row_after_untouched)
next
  case (Some ps)
  from row_after_settled [OF assms Some, of old] obtain r
    where r: "row_after e mk S I k xs old = Some r" "merged_row S I ps (Some r) = r"
    by blast
  show ?thesis by (simp add: r row_after_Some Some)
qed

lemma last_params_none:
  assumes "\<forall>x\<in>set xs. \<forall>req. mk x = Inr req \<longrightarrow> key_of e req ''id'' \<noteq> IntVal k"
  shows "last_params e mk k xs = None"
  using assms by (induction xs) (auto split: sum.splits)

lemma team_request_query:
  "team_request x = Inr req \<Longrightarrow> query req = Merge ''teams'' team_set_columns team_insert_columns"
  by (auto simp: team_request_def split: if_splits)

lemma element_type_request_query:
  "element_type_request x = Inr req \<Longrightarrow>
     query req = Merge ''element_types'' element_type_set_columns element_type_insert_columns"
  by (auto simp: element_type_request_def split: if_splits)

lemma event_request_query:
  "event_request x = Inr req \<Longrightarrow> query req = Merge ''events'' event_set_columns event_insert_columns"
  by (auto simp: event_request_def split: if_splits)

lemma fixture_request_query:
  "fixture_request x = Inr req \<Longrightarrow> query req = Merge ''fixtures'' fixture_set_columns fixture_insert_columns"
  by (auto simp: fixture_request_def split: if_splits)

lemma player_request_query:
  "player_request x = Inr req \<Longrightarrow> query req = Merge ''players'' player_set_columns player_insert_columns"
  by (auto simp: player_request_def split: if_splits)

lemma set_columns_subsets:
  "set team_set_columns \<subseteq> set team_insert_columns"
  "set element_type_set_columns \<subseteq> set element_type_insert_columns"
  "set event_set_columns \<subseteq> set event_insert_columns"
  "set fixture_set_columns \<subseteq> set fixture_insert_columns"
  "set player_set_columns \<subseteq> set player_insert_columns"
  by (simp_all add: team_set_columns_def team_insert_columns_def
      element_type_set_columns_def element_type_insert_columns_def
      event_set_columns_def event_insert_columns_def
      fixture_set_columns_def fixture_insert_columns_def
      player_set_columns_def player_insert_columns_def)

lemma reference_row_idempotent:
  "reference_row e bd fd tbl k (reference_row e bd fd tbl k old) = reference_row e bd fd tbl k old"
  by (simp add: reference_row_def row_after_idempotent set_columns_subsets)

lemma updateTeams_rows:
  "fst (updateTeams e xs w) = Return () \<Longrightarrow>
   untimed (db (snd (updateTeams e xs w))) tbl k
     = (if tbl = ''teams'' then row_after e team_request team_set_columns team_insert_columns k xs (untimed (db w) ''teams'' k)
        else untimed (db w) tbl k)"
  unfolding updateTeams_def by (rule upsert_each_rows) (auto dest: team_request_query)

lemma updateElementTypes_rows:
  "fst (updateElementTypes e xs w) = Return () \<Longrightarrow>
   untimed (db (snd (updateElementTypes e xs w))) tbl k
     = (if tbl = ''element_types''
        then row_after e element_type_request element_type_set_columns element_type_insert_columns k xs
               (untimed (db w) ''element_types'' k)
        else untimed (db w) tbl k)"
  unfolding updateElementTypes_def by (rule upsert_each_rows) (auto dest: element_type_request_query)

lemma updateEvents_rows:
  "fst (updateEvents e xs w) = Return () \<Longrightarrow>
   untimed (db (snd (updateEvents e xs w))) tbl k
     = (if tbl = ''events'' then row_after e event_request event_set_columns event_insert_columns k xs (untimed (db w) ''events'' k)
        else untimed (db w) tbl k)"
  unfolding updateEvents_def by (rule upsert_each_rows) (auto dest: event_request_query)

lemma updateFixtures_rows:
  "fst (updateFixtures e xs w) = Return () \<Longrightarrow>
   untimed (db (snd (updateFixtures e xs w))) tbl k
     = (if tbl = ''fixtures'' then row_after e fixture_request fixture_set_columns fixture_insert_columns k xs (untimed (db w) ''fixtures'' k)
        else untimed (db w) tbl k)"
  unfolding updateFixtures_def by (rule upsert_each_rows) (auto dest: fixture_request_query)

lemma updatePlayers_rows:
  "fst (updatePlayers e xs w) = Return () \<Longrightarrow>
   untimed (db (snd (updatePlayers e xs w))) tbl k
     = (if tbl = ''players'' then row_after e player_request player_set_columns player_insert_columns k xs (untimed (db w) ''players'' k)
        else untimed (db w) tbl k)"
  unfolding updatePlayers_def by (rule upsert_each_rows) (auto dest: player_request_query)

text \<open>A successful pass over the five reference tables, seen from one table and one key.\<close>

lemma reference_upserts_rows:
  assumes ok: "fst (reference_upserts e bd fd w) = Return ()"
  shows "untimed (db (snd (reference_upserts e bd fd w))) tbl k
           = reference_row e bd fd tbl k (untimed (db w) tbl k)"
proof -
  let ?t = "updateTeams e (elements_of (js_get bd ''teams''))"
  let ?y = "updateElementTypes e (elements_of (js_get bd ''element_types''))"
  let ?v = "updateEvents e (elements_of (js_get bd ''events''))"
  let ?f = "updateFixtures e (elements_of fd)"
  let ?p = "updatePlayers e (elements_of (js_get bd ''elements''))"
  let ?w1 = "snd (?t w)"
  let ?w2 = "snd (?y ?w1)"
  let ?w3 = "snd (?v ?w2)"
  let ?w4 = "snd (?f ?w3)"
  have r: "reference_upserts e bd fd = then_await ?t (then_await ?y (then_await ?v (then_await ?f ?p)))"
    by (simp add: reference_upserts_def)
  from ok have t: "fst (?t w) = Return ()"
    and 1: "reference_upserts e bd fd w = then_await ?y (then_await ?v (then_await ?f ?p)) ?w1"
    unfolding r by (rule then_await_ReturnD)+
  from ok have ok1: "fst (then_await ?y (then_await ?v (then_await ?f ?p)) ?w1) = Return ()"
    unfolding 1 .
  then have y: "fst (?y ?w1) = Return ()"
    and 2: "then_await ?y (then_await ?v (then_await ?f ?p)) ?w1 = then_await ?v (then_await ?f ?p) ?w2"
    by (rule then_await_ReturnD)+
  from ok1 have ok2: "fst (then_await ?v (then_await ?f ?p) ?w2) = Return ()"
    unfolding 2 .
  then have v: "fst (?v ?w2) = Return ()"
    and 3: "then_await ?v (then_await ?f ?p) ?w2 = then_await ?f ?p ?w3"
    by (rule then_await_ReturnD)+
  from ok2 have ok3: "fst (then_await ?f ?p ?w3) = Return ()"
    unfolding 3 .
  then have f: "fst (?f ?w3) = Return ()"
    and 4: "then_await ?f ?p ?w3 = ?p ?w4"
    by (rule then_await_ReturnD)+
  from ok3 have p: "fst (?p ?w4) = Return ()"
    unfolding 4 .
  have eq: "reference_upserts e bd fd w = ?p ?w4"
    by (simp only: 1 2 3 4)
  show ?thesis
    unfolding eq
    by (simp add: updatePlayers_rows [OF p] updateFixtures_rows [OF f] updateEvents_rows [OF v]
        updateElementTypes_rows [OF y] updateTeams_rows [OF t] reference_row_def)
qed

lemma upsert_each_succeeds:
  assumes mk: "\<forall>x\<in>set xs. \<exists>req tbl S I k. mk x = Inr req \<and> query req = Merge tbl S I
                 \<and> key_of e req ''id'' = IntVal k"
      and drv: "\<forall>n. length (requests w) \<le> n \<and> n < length (requests w) + length xs
                 \<longrightarrow> (\<exists>t. driver e n = Done t)"
  shows "fst (upsert_each e mk xs w) = Return ()
       \<and> length (requests (snd (upsert_each e mk xs w))) = length (requests w) + length xs"
  using mk drv
proof (induction xs arbitrary: w)
  case Nil
  show ?case by simp
next
  case (Cons x xs)
  from Cons.prems(1) obtain req tbl S I k where req: "mk x = Inr req"
    and q: "query req = Merge tbl S I" and k: "key_of e req ''id'' = IntVal k"
    by auto
  from Cons.prems(2) obtain t where t: "driver e (length (requests w)) = Done t"
    by auto
  from apply_query_Merge_Some [OF q k] obtain d where d: "apply_query e req t (db w) = Some d"
    by blast
  let ?w = "logged req Succeeded (w\<lparr>db := d\<rparr>)"
  have step: "execSql e req w = (Return (), ?w)" using t d by (rule execSql_Done)
  have len: "length (requests ?w) = Suc (length (requests w))" by (simp add: logged_def)
  have mk': "\<forall>x\<in>set xs. \<exists>req tbl S I k. mk x = Inr req \<and> query req = Merge tbl S I
                 \<and> key_of e req ''id'' = IntVal k"
    using Cons.prems(1) by simp
  have drv': "\<forall>n. length (requests ?w) \<le> n \<and> n < length (requests ?w) + length xs
                 \<longrightarrow> (\<exists>t. driver e n = Done t)"
    using Cons.prems(2) len by simp
  from Cons.IH [OF mk' drv'] have "fst (upsert_each e mk xs ?w) = Return ()
       \<and> length (requests (snd (upsert_each e mk xs ?w))) = length (requests ?w) + length xs" .
  then show ?case using req step len by simp
qed

lemma then_await_succeeds:
  assumes "fst (f w) = Return () \<and> length (requests (snd (f w))) = length (requests w) + m"
      and "fst (g (snd (f w))) = Return ()
           \<and> length (requests (snd (g (snd (f w))))) = length (requests (snd (f w))) + n"
  shows "fst (then_await f g w) = Return ()
       \<and> length (requests (snd (then_await f g w))) = length (requests w) + (m + n)"
  using assms by (simp add: then_await_Return)

lemma sample_keys:
  "to_int e = sample_to_int \<Longrightarrow> \<exists>req tbl S I k. team_request sample_team = Inr req
      \<and> query req = Merge tbl S I \<and> key_of e req ''id'' = IntVal k"
  "to_int e = sample_to_int \<Longrightarrow> \<exists>req tbl S I k. element_type_request sample_position = Inr req
      \<and> query req = Merge tbl S I \<and> key_of e req ''id'' = IntVal k"
  "to_int e = sample_to_int \<Longrightarrow> \<exists>req tbl S I k. event_request sample_event = Inr req
      \<and> query req = Merge tbl S I \<and> key_of e req ''id'' = IntVal k"
  "to_int e = sample_to_int \<Longrightarrow> \<exists>req tbl S I k. fixture_request sample_fixture = Inr req
      \<and> query req = Merge tbl S I \<and> key_of e req ''id'' = IntVal k"
  "to_int e = sample_to_int \<Longrightarrow> \<exists>req tbl S I k. player_request sample_player = Inr req
      \<and> query req = Merge tbl S I \<and> key_of e req ''id'' = IntVal k"
  by (simp_all add: team_request_def sample_team_def element_type_request_def sample_position_def
      event_request_def sample_event_def fixture_request_def sample_fixture_def
      player_request_def sample_player_def key_of_def sample_to_int_def)

text \<open>The five upserts of the sample season send 404 requests and succeed if the server executes them.\<close>

lemma sample_reference_upserts:
  assumes int: "to_int e = sample_to_int"
      and drv: "\<forall>n. length (requests w) \<le> n \<and> n < length (requests w) + 404
                 \<longrightarrow> (\<exists>t. driver e n = Done t)"
  shows "fst (reference_upserts e sample_bootstrap (JArr [sample_fixture]) w) = Return ()
       \<and> length (requests (snd (reference_upserts e sample_bootstrap (JArr [sample_fixture]) w)))
           = length (requests w) + 404"
proof -
  let ?t = "updateTeams e [sample_team]"
  let ?y = "updateElementTypes e [sample_position]"
  let ?v = "updateEvents e [sample_event]"
  let ?f = "updateFixtures e [sample_fixture]"
  let ?p = "updatePlayers e (replicate 400 sample_player)"
  have r: "reference_upserts e sample_bootstrap (JArr [sample_fixture])
             = then_await ?t (then_await ?y (then_await ?v (then_await ?f ?p)))"
    by (simp add: reference_upserts_def sample_bootstrap_def)
  have t: "fst (?t w) = Return () \<and> length (requests (snd (?t w))) = length (requests w) + 1"
    unfolding updateTeams_def
    using upsert_each_succeeds [of "[sample_team]" team_request e w] sample_keys(1) [OF int] drv
    by simp
  let ?w1 = "snd (?t w)"
  have y: "fst (?y ?w1) = Return () \<and> length (requests (snd (?y ?w1))) = length (requests ?w1) + 1"
    unfolding updateElementTypes_def
    using upsert_each_succeeds [of "[sample_position]" element_type_request e ?w1] sample_keys(2) [OF int] drv t
    by (simp add: updateTeams_def)
  let ?w2 = "snd (?y ?w1)"
  have v: "fst (?v ?w2) = Return () \<and> length (requests (snd (?v ?w2))) = length (requests ?w2) + 1"
    unfolding updateEvents_def
    using upsert_each_succeeds [of "[sample_event]" event_request e ?w2] sample_keys(3) [OF int] drv t y
    by (simp add: updateTeams_def updateElementTypes_def)
  let ?w3 = "snd (?v ?w2)"
  have f: "fst (?f ?w3) = Return () \<and> length (requests (snd (?f ?w3))) = length (requests ?w3) + 1"
    unfolding updateFixtures_def
    using upsert_each_succeeds [of "[sample_fixture]" fixture_request e ?w3] sample_keys(4) [OF int] drv t y v
    by (simp add: updateTeams_def updateElementTypes_def updateEvents_def)
  let ?w4 = "snd (?f ?w3)"
  have p: "fst (?p ?w4) = Return () \<and> length (requests (snd (?p ?w4))) = length (requests ?w4) + 400"
    unfolding updatePlayers_def
    using upsert_each_succeeds [of "replicate 400 sample_player" player_request e ?w4] sample_keys(5) [OF int]
      drv t y v f
    by (simp add: updateTeams_def updateElementTypes_def updateEvents_def updateFixtures_def)
  have fp: "fst (then_await ?f ?p ?w3) = Return ()
      \<and> length (requests (snd (then_await ?f ?p ?w3))) = length (requests ?w3) + (1 + 400)"
    using f p by (rule then_await_succeeds)
  have vfp: "fst (then_await ?v (then_await ?f ?p) ?w2) = Return ()
      \<and> length (requests (snd (then_await ?v (then_await ?f ?p) ?w2))) = length (requests ?w2) + (1 + (1 + 400))"
    using v fp by (rule then_await_succeeds)
  have yvfp: "fst (then_await ?y (then_await ?v (then_await ?f ?p)) ?w1) = Return ()
      \<and> length (requests (snd (then_await ?y (then_await ?v (then_await ?f ?p)) ?w1)))
          = length (requests ?w1) + (1 + (1 + (1 + 400)))"
    using y vfp by (rule then_await_succeeds)
  have all: "fst (then_await ?t (then_await ?y (then_await ?v (then_await ?f ?p))) w) = Return ()
      \<and> length (requests (snd (then_await ?t (then_await ?y (then_await ?v (then_await ?f ?p))) w)))
          = length (requests w) + (1 + (1 + (1 + (1 + 400))))"
    using t yvfp by (rule then_await_succeeds)
  show ?thesis unfolding r using all by simp
qed

text \<open>The world of the sample season when the five upserts are done.\<close>

lemma sample_before_stats:
  assumes e: "api e = sample_api" "to_int e = sample_to_int"
      and drv: "\<forall>n < 404. \<exists>t. driver e n = Done t"
  obtains W where
    "reference_upserts e sample_bootstrap (JArr [sample_fixture]) (connecting (fresh empty_db)) = (Return (), W)"
    "length (requests W) = 404"
proof -
  let ?R = "reference_upserts e sample_bootstrap (JArr [sample_fixture]) (connecting (fresh empty_db))"
  have len0: "length (requests (connecting (fresh empty_db))) = 0"
    by (simp add: connecting_def fresh_def)
  have "fst ?R = Return () \<and> length (requests (snd ?R)) = length (requests (connecting (fresh empty_db))) + 404"
    by (rule sample_reference_upserts [OF e(2)]) (use drv len0 in simp)
  then have "?R = (Return (), snd ?R)" "length (requests (snd ?R)) = 404"
    using len0 by (simp_all add: prod_eq_iff)
  then show ?thesis by (rule that)
qed

text \<open>
  C7. When the merge-upsert of a reference snapshot (teams, position types, gameweeks,
  fixtures, players) has run to its end, running it again on the same snapshot to its
  end leaves every row of every table as the first run left it, except for the column
  \<open>last_updated\<close>.
\<close>

theorem merge_upsert_is_idempotent:
  assumes first: "fst (reference_upserts e bd fd w) = Return ()"
      and second: "fst (reference_upserts e bd fd (snd (reference_upserts e bd fd w))) = Return ()"
  shows "untimed (db (snd (reference_upserts e bd fd (snd (reference_upserts e bd fd w)))))
           = untimed (db (snd (reference_upserts e bd fd w)))"
proof (intro ext)
  fix tbl k
  let ?w1 = "snd (reference_upserts e bd fd w)"
  have "untimed (db (snd (reference_upserts e bd fd ?w1))) tbl k
          = reference_row e bd fd tbl k (untimed (db ?w1) tbl k)"
    using second by (rule reference_upserts_rows)
  also have "untimed (db ?w1) tbl k = reference_row e bd fd tbl k (untimed (db w) tbl k)"
    using first by (rule reference_upserts_rows)
  finally show "untimed (db (snd (reference_upserts e bd fd ?w1))) tbl k = untimed (db ?w1) tbl k"
    by (simp add: reference_row_idempotent reference_upserts_rows [OF first])
qed

theorem merge_upsert_is_idempotent_witness:
  "untimed (db (snd (reference_upserts sample_env sample_bootstrap (JArr [sample_fixture])
      (snd (reference_upserts sample_env sample_bootstrap (JArr [sample_fixture]) (fresh empty_db))))))
   = untimed (db (snd (reference_upserts sample_env sample_bootstrap (JArr [sample_fixture]) (fresh empty_db))))"
proof -
  have int: "to_int sample_env = sample_to_int" by (simp add: sample_env_def)
  have drv: "\<forall>n. length (requests w) \<le> n \<and> n < length (requests w) + 404
                 \<longrightarrow> (\<exists>t. driver sample_env n = Done t)" for w
    by (simp add: sample_env_def)
  have first: "fst (reference_upserts sample_env sample_bootstrap (JArr [sample_fixture]) (fresh empty_db)) = Return ()"
    using sample_reference_upserts [OF int drv] by blast
  have second: "fst (reference_upserts sample_env sample_bootstrap (JArr [sample_fixture])
      (snd (reference_upserts sample_env sample_bootstrap (JArr [sample_fixture]) (fresh empty_db)))) = Return ()"
    using sample_reference_upserts [OF int drv] by blast
  from first second show ?thesis by (rule merge_upsert_is_idempotent)
qed

section \<open>The live-stats batch\<close>

text \<open>
  The loop of \<open>updatePlayerStats\<close> goes on after a refused statement, counts it, and fails the run at the end.
\<close>

lemma execSql_not_lost:
  assumes "\<forall>n m. driver e n \<noteq> ConnectionLost m"
  obtains (ok) t d where "apply_query e req t (db w) = Some d"
      "execSql e req w = (Return (), logged req Succeeded (w\<lparr>db := d\<rparr>))"
  | (failed) m where "execSql e req w = (Throw (RequestError m), logged req Failed w)"
proof (cases "driver e (length (requests w))")
  case (Done t)
  show ?thesis
  proof (cases "apply_query e req t (db w)")
    case None
    then show ?thesis using Done by (intro that(2)) (simp add: execSql_def)
  next
    case (Some d)
    then show ?thesis using Done by (intro that(1) [of t d]) (simp_all add: execSql_def)
  qed
next
  case (RequestFailed m)
  then show ?thesis by (intro that(2)) (simp add: execSql_def)
next
  case (ConnectionLost m)
  then show ?thesis using assms by blast
qed

lemma untimed_Update:
  assumes "query req = Update tbl S key" "apply_query e req t d = Some d'"
  shows "untimed d' tbl' k
           = (if tbl' = tbl \<and> key_of e req key = IntVal k
              then map_option (\<lambda>r. (set_columns S (params req) r)(''last_updated'' := None)) (untimed d tbl k)
              else untimed d tbl' k)"
proof (cases "key_of e req key")
  case (IntVal j)
  show ?thesis
  proof (cases "d tbl j")
    case None
    then show ?thesis using assms IntVal by (auto simp: apply_query_def untimed_def)
  next
    case (Some r)
    then have d': "d' = d(tbl := (d tbl)(j \<mapsto> (set_columns S (params req) r)(''last_updated'' \<mapsto> Stamp t)))"
      using assms IntVal by (simp add: apply_query_def)
    show ?thesis
      unfolding d' using IntVal Some by (auto simp: untimed_def set_columns_untimed)
  qed
next
  case IntNull
  then show ?thesis using assms by (simp add: apply_query_def)
next
  case IntInvalid
  then show ?thesis using assms by (simp add: apply_query_def)
qed

lemma untimed_None: "(untimed d tbl k = None) = (d tbl k = None)"
  by (simp add: untimed_def)

lemma stats_requests_of_Cons:
  "stats_requests_of (x # xs)
     = (case stats_request x of Inr req \<Rightarrow> [req] | Inl err \<Rightarrow> []) @ stats_requests_of xs"
  by (simp add: stats_requests_of_def)

lemma stats_request_Inr:
  assumes "stats_request element = Inr req"
  shows "query req = Update ''players'' stats_columns ''player_id''"
    and "key_of e req ''player_id'' = to_int e (js_get element ''id'')"
  using assms by (auto simp: stats_request_def Let_def key_of_def split: if_splits)

lemma apply_query_Update_Some:
  assumes "query req = Update tbl S key" "key_of e req key \<noteq> IntInvalid"
  shows "\<exists>d'. apply_query e req t d = Some d'"
  using assms by (simp add: apply_query_def split: sql_int.splits option.splits)

lemma apply_query_Update_unmatched:
  assumes "query req = Update tbl S key"
      and "key_of e req key = IntNull \<or> (\<exists>k. key_of e req key = IntVal k \<and> d tbl k = None)"
  shows "apply_query e req t d = Some d"
  using assms by (auto simp: apply_query_def)

lemma apply_query_Update_keeps_absent:
  assumes "query req = Update tbl S key" "apply_query e req t d = Some d'"
  shows "(d' tbl' j = None) = (d tbl' j = None)"
  using assms by (auto simp: apply_query_def split: sql_int.splits option.splits if_splits)

lemma stats_loop_counts:
  assumes rows: "\<forall>el\<in>set xs. \<not> nullish el"
      and conn: "\<forall>n m. driver e n \<noteq> ConnectionLost m"
  shows "\<exists>uc' ec' w' rs. stats_loop e xs uc ec w = (Return (uc', ec'), w')
           \<and> uc' + ec' = uc + ec + length xs
           \<and> requests w' = requests w @ rs
           \<and> map fst rs = stats_requests_of xs
           \<and> uc' = uc + length (filter (\<lambda>q. snd q = Succeeded) rs)
           \<and> (\<forall>tbl k. untimed (db w') tbl k
                 = (if tbl = ''players'' then live_row_after e k rs (untimed (db w) ''players'' k)
                    else untimed (db w) tbl k))"
  using rows
proof (induction xs arbitrary: uc ec w)
  case Nil
  show ?case by (simp add: stats_requests_of_def)
next
  case (Cons x xs)
  then have nn: "\<not> nullish x" and rest: "\<forall>el\<in>set xs. \<not> nullish el" by simp_all
  note IH = Cons.IH [OF rest]
  show ?case
  proof (cases "stats_request x")
    case (Inl err)
    have eq: "stats_loop e (x # xs) uc ec w = stats_loop e xs uc (ec + 1) w"
      using Inl nn by simp
    from IH [of uc "ec + 1" w] obtain uc' ec' w' rs where
      "stats_loop e xs uc (ec + 1) w = (Return (uc', ec'), w')"
      "uc' + ec' = uc + (ec + 1) + length xs" "requests w' = requests w @ rs"
      "map fst rs = stats_requests_of xs" "uc' = uc + length (filter (\<lambda>q. snd q = Succeeded) rs)"
      "\<forall>tbl k. untimed (db w') tbl k
                 = (if tbl = ''players'' then live_row_after e k rs (untimed (db w) ''players'' k)
                    else untimed (db w) tbl k)"
      by blast
    then show ?thesis
      unfolding eq by (intro exI [of _ uc'] exI [of _ ec'] exI [of _ w'] exI [of _ rs])
        (simp add: stats_requests_of_Cons Inl)
  next
    case (Inr req)
    have q: "query req = Update ''players'' stats_columns ''player_id''"
      using Inr by (auto simp: stats_request_def Let_def split: if_splits)
    consider (ok) t d where "apply_query e req t (db w) = Some d"
        "execSql e req w = (Return (), logged req Succeeded (w\<lparr>db := d\<rparr>))"
      | (failed) m where "execSql e req w = (Throw (RequestError m), logged req Failed w)"
      by (rule execSql_not_lost [OF conn])
    then show ?thesis
    proof cases
      case (ok t d)
      let ?w = "logged req Succeeded (w\<lparr>db := d\<rparr>)"
      have eq: "stats_loop e (x # xs) uc ec w = stats_loop e xs (uc + 1) ec ?w"
        using Inr nn ok(2) by simp
      have d: "untimed (db ?w) tbl k
           = (if tbl = ''players'' \<and> key_of e req ''player_id'' = IntVal k
              then map_option (\<lambda>r. (set_columns stats_columns (params req) r)(''last_updated'' := None))
                     (untimed (db w) ''players'' k)
              else untimed (db w) tbl k)" for tbl k
        using untimed_Update [OF q ok(1), of tbl k] by (simp add: logged_def)
      from IH [of "uc + 1" ec ?w] obtain uc' ec' w' rs where
        "stats_loop e xs (uc + 1) ec ?w = (Return (uc', ec'), w')"
        "uc' + ec' = (uc + 1) + ec + length xs" "requests w' = requests ?w @ rs"
        "map fst rs = stats_requests_of xs" "uc' = (uc + 1) + length (filter (\<lambda>q. snd q = Succeeded) rs)"
        and rows': "\<forall>tbl k. untimed (db w') tbl k
                 = (if tbl = ''players'' then live_row_after e k rs (untimed (db ?w) ''players'' k)
                    else untimed (db ?w) tbl k)"
        by blast
      moreover have "\<forall>tbl k. untimed (db w') tbl k
                 = (if tbl = ''players'' then live_row_after e k ((req, Succeeded) # rs) (untimed (db w) ''players'' k)
                    else untimed (db w) tbl k)"
        using rows' by (simp add: d)
      ultimately show ?thesis
        unfolding eq
        by (intro exI [of _ uc'] exI [of _ ec'] exI [of _ w'] exI [of _ "(req, Succeeded) # rs"])
          (simp add: stats_requests_of_Cons Inr logged_def)
    next
      case (failed m)
      let ?w = "logged req Failed w"
      have eq: "stats_loop e (x # xs) uc ec w = stats_loop e xs uc (ec + 1) ?w"
        using Inr nn failed by simp
      from IH [of uc "ec + 1" ?w] obtain uc' ec' w' rs where
        "stats_loop e xs uc (ec + 1) ?w = (Return (uc', ec'), w')"
        "uc' + ec' = uc + (ec + 1) + length xs" "requests w' = requests ?w @ rs"
        "map fst rs = stats_requests_of xs" "uc' = uc + length (filter (\<lambda>q. snd q = Succeeded) rs)"
        and rows': "\<forall>tbl k. untimed (db w') tbl k
                 = (if tbl = ''players'' then live_row_after e k rs (untimed (db ?w) ''players'' k)
                    else untimed (db ?w) tbl k)"
        by blast
      moreover have "\<forall>tbl k. untimed (db w') tbl k
                 = (if tbl = ''players'' then live_row_after e k ((req, Failed) # rs) (untimed (db w) ''players'' k)
                    else untimed (db w) tbl k)"
        using rows' by (simp add: logged_def)
      ultimately show ?thesis
        unfolding eq
        by (intro exI [of _ uc'] exI [of _ ec'] exI [of _ w'] exI [of _ "(req, Failed) # rs"])
          (simp add: stats_requests_of_Cons Inr logged_def)
    qed
  qed
qed

text \<open>A null or undefined entry is read before the \<open>try\<close>: the loop ends there with a TypeError.\<close>

lemma stats_loop_null_row:
  "nullish element \<Longrightarrow> stats_loop e (element # rest) uc ec w = (Throw TypeError, w)"
  by simp

lemma stats_step_ok:
  assumes "\<not> nullish x" "stats_request x = Inr req"
      and "driver e (length (requests w)) = Done t" "to_int e (js_get x ''id'') \<noteq> IntInvalid"
  obtains d where "apply_query e req t (db w) = Some d"
    and "stats_loop e (x # xs) uc ec w = stats_loop e xs (uc + 1) ec (logged req Succeeded (w\<lparr>db := d\<rparr>))"
proof -
  have k: "key_of e req ''player_id'' \<noteq> IntInvalid"
    using assms(2,4) by (simp add: stats_request_Inr(2))
  from apply_query_Update_Some [OF stats_request_Inr(1) [OF assms(2)] k]
  obtain d where d: "apply_query e req t (db w) = Some d" by blast
  have "execSql e req w = (Return (), logged req Succeeded (w\<lparr>db := d\<rparr>))"
    using assms(3) d by (rule execSql_Done)
  then have "stats_loop e (x # xs) uc ec w = stats_loop e xs (uc + 1) ec (logged req Succeeded (w\<lparr>db := d\<rparr>))"
    using assms(1,2) by simp
  with d show ?thesis by (rule that)
qed

lemma stats_step_failed:
  assumes "\<not> nullish x" "stats_request x = Inr req"
      and "driver e (length (requests w)) = RequestFailed m"
  shows "stats_loop e (x # xs) uc ec w = stats_loop e xs uc (ec + 1) (logged req Failed w)"
  using assms by (simp add: execSql_def)

lemma updatePlayerStats_of_loop:
  assumes "stats_loop e xs 0 0 w = (Return (uc, ec), w')" "uc + ec = length xs"
  shows "updatePlayerStats e xs w = (if ec > 0 then Throw (FailedToUpdate ec) else Return (), w')"
proof (cases "xs = []")
  case True
  then show ?thesis using assms by (simp add: updatePlayerStats_def)
next
  case False
  then show ?thesis using assms(1) by (simp add: updatePlayerStats_def)
qed

lemma main_of_stats:
  assumes reach: "checkIfGameIsLive (api e) = Inr True" "getBootstrapData (api e) = Inr bd"
      "getCurrentGameweekData (api e) = Inr gd" "getFixturesData (api e) = Inr fd"
      "fst (validateData bd gd fd)" "connect_error e = None"
      and ref: "reference_upserts e bd fd (connecting w0) = (Return (), w)"
      and els: "js_get gd ''elements'' = JArr elements"
      and stats: "updatePlayerStats e elements w = (r, w')" "\<And>err. r \<noteq> Abort err"
  shows "fst (main e w0) = (if r = Return () then 0 else 1)"
proof -
  have t: "then_await (reference_upserts e bd fd) (updatePlayerStats e (elements_of (js_get gd ''elements'')))
             (connecting w0) = (r, w')"
    using ref els stats(1) by (simp add: then_await_def)
  have u: "updateDatabase e bd gd fd w0 = (r, close_connection w')"
  proof (cases r)
    case (Abort err)
    then show ?thesis using stats(2) [of err] by simp
  qed (simp_all add: updateDatabase_def reach(6) t)
  show ?thesis
    using reach(1-5) u by (cases r) (simp_all add: main_def)
qed

lemma main_of_stats_world:
  assumes reach: "checkIfGameIsLive (api e) = Inr True" "getBootstrapData (api e) = Inr bd"
      "getCurrentGameweekData (api e) = Inr gd" "getFixturesData (api e) = Inr fd"
      "fst (validateData bd gd fd)" "connect_error e = None"
      and ref: "reference_upserts e bd fd (connecting w0) = (Return (), w)"
      and els: "js_get gd ''elements'' = JArr elements"
      and stats: "updatePlayerStats e elements w = (Return (), w')"
  shows "main e w0 = (0, close_connection w')"
proof -
  have t: "then_await (reference_upserts e bd fd) (updatePlayerStats e (elements_of (js_get gd ''elements'')))
             (connecting w0) = (Return (), w')"
    using ref els stats by (simp add: then_await_def)
  have u: "updateDatabase e bd gd fd w0 = (Return (), close_connection w')"
    by (simp add: updateDatabase_def reach(6) t)
  show ?thesis
    using reach(1-5) u by (simp add: main_def)
qed

text \<open>
  C2. The batch of live rows runs every row to its end: when no entry of the list is null
  and the connection holds, the loop returns with success count plus failure count equal
  to the number of rows; the request of every row whose request can be built was sent, in
  the order of the rows, whatever became of the rows before it; the success count is the
  number of update statements that succeeded, and the stored player rows are those found,
  rewritten by exactly these statements; after the loop \<open>updatePlayerStats\<close> raises
  \<open>Failed to update K players\<close> iff the failure count \<open>K\<close> is positive; and the run that
  reached the batch then exits with status 1, with status 0 otherwise.
\<close>

theorem live_stats_batch_is_best_effort:
  assumes rows: "\<forall>el\<in>set elements. \<not> nullish el"
      and conn: "\<forall>n m. driver e n \<noteq> ConnectionLost m"
  shows "\<exists>updateCount errorCount w'.
           stats_loop e elements 0 0 w = (Return (updateCount, errorCount), w')
         \<and> updateCount + errorCount = length elements
         \<and> map fst (drop (length (requests w)) (requests w')) = stats_requests_of elements
         \<and> updateCount = length (filter (\<lambda>q. snd q = Succeeded) (drop (length (requests w)) (requests w')))
         \<and> (\<forall>tbl k. untimed (db w') tbl k
               = (if tbl = ''players''
                  then live_row_after e k (drop (length (requests w)) (requests w')) (untimed (db w) ''players'' k)
                  else untimed (db w) tbl k))
         \<and> updatePlayerStats e elements w
             = (if errorCount > 0 then Throw (FailedToUpdate errorCount) else Return (), w')
         \<and> (\<forall>bd gd fd w0.
               checkIfGameIsLive (api e) = Inr True \<and> getBootstrapData (api e) = Inr bd
               \<and> getCurrentGameweekData (api e) = Inr gd \<and> getFixturesData (api e) = Inr fd
               \<and> fst (validateData bd gd fd) \<and> connect_error e = None
               \<and> reference_upserts e bd fd (connecting w0) = (Return (), w)
               \<and> js_get gd ''elements'' = JArr elements
               \<longrightarrow> fst (main e w0) = (if errorCount > 0 then 1 else 0))"
proof -
  from stats_loop_counts [OF rows conn, of 0 0 w] obtain uc ec w' rs where
    loop: "stats_loop e elements 0 0 w = (Return (uc, ec), w')"
    and sum: "uc + ec = length elements"
    and log: "requests w' = requests w @ rs"
    and sent: "map fst rs = stats_requests_of elements"
    and count: "uc = length (filter (\<lambda>q. snd q = Succeeded) rs)"
    and stored: "\<forall>tbl k. untimed (db w') tbl k
                 = (if tbl = ''players'' then live_row_after e k rs (untimed (db w) ''players'' k)
                    else untimed (db w) tbl k)"
    by auto
  have rs: "drop (length (requests w)) (requests w') = rs" using log by simp
  have ups: "updatePlayerStats e elements w = (if ec > 0 then Throw (FailedToUpdate ec) else Return (), w')"
    using loop sum by (rule updatePlayerStats_of_loop)
  have run: "fst (main e w0) = (if ec > 0 then 1 else 0)"
    if reach: "checkIfGameIsLive (api e) = Inr True \<and> getBootstrapData (api e) = Inr bd
               \<and> getCurrentGameweekData (api e) = Inr gd \<and> getFixturesData (api e) = Inr fd
               \<and> fst (validateData bd gd fd) \<and> connect_error e = None
               \<and> reference_upserts e bd fd (connecting w0) = (Return (), w)
               \<and> js_get gd ''elements'' = JArr elements" for bd gd fd w0
  proof -
    have "fst (main e w0) = (if (if ec > 0 then Throw (FailedToUpdate ec) else Return ()) = Return () then 0 else 1)"
      by (rule main_of_stats [where bd = bd and gd = gd and fd = fd and w = w and elements = elements and w' = w'])
         (use reach ups in \<open>simp_all split: if_splits\<close>)
    then show ?thesis by (simp split: if_splits)
  qed
  show ?thesis
    by (intro exI [of _ uc] exI [of _ ec] exI [of _ w'] conjI allI impI)
       (use loop sum sent count stored ups run in \<open>simp_all add: rs\<close>)
qed

theorem live_stats_batch_is_best_effort_witness:
  "fst (main late_fail_env (fresh empty_db)) = 1"
proof -
  let ?e = late_fail_env
  have e: "api ?e = sample_api" "to_int ?e = sample_to_int" "connect_error ?e = None"
    by (simp_all add: late_fail_env_def sample_env_def)
  have drv: "driver ?e 404 = Done 404" "driver ?e 405 = RequestFailed ''Invalid number''"
    "\<forall>n < 404. \<exists>t. driver ?e n = Done t"
    by (simp_all add: late_fail_env_def sample_env_def)
  have conn: "\<forall>n m. driver ?e n \<noteq> ConnectionLost m"
    by (simp add: late_fail_env_def sample_env_def)
  from sample_before_stats [OF e(1,2) drv(3)] obtain W where
    W: "reference_upserts ?e sample_bootstrap (JArr [sample_fixture]) (connecting (fresh empty_db)) = (Return (), W)"
    and len: "length (requests W) = 404" .
  let ?rows = "[sample_live_row, sample_second_row]"
  have rows: "\<forall>el\<in>set ?rows. \<not> nullish el" by (simp add: sample_rows)
  from sample_rows(3,4) obtain r1 r2 where r: "stats_request sample_live_row = Inr r1"
    "stats_request sample_second_row = Inr r2" by blast
  have valid1: "to_int ?e (js_get sample_live_row ''id'') \<noteq> IntInvalid"
    by (simp add: e(2) sample_rows sample_to_int_def)
  from stats_step_ok [OF sample_rows(1) r(1) _ valid1, of W 404 "[sample_second_row]" 0 0]
  obtain d where s1: "stats_loop ?e ?rows 0 0 W
      = stats_loop ?e [sample_second_row] (0 + 1) 0 (logged r1 Succeeded (W\<lparr>db := d\<rparr>))"
    using drv(1) len by auto
  have len1: "length (requests (logged r1 Succeeded (W\<lparr>db := d\<rparr>))) = 405"
    by (simp add: logged_def len)
  have s2: "stats_loop ?e [sample_second_row] (0 + 1) 0 (logged r1 Succeeded (W\<lparr>db := d\<rparr>))
      = stats_loop ?e [] (0 + 1) (0 + 1) (logged r2 Failed (logged r1 Succeeded (W\<lparr>db := d\<rparr>)))"
    by (rule stats_step_failed [OF sample_rows(2) r(2)]) (simp add: len1 drv(2))
  have loop: "stats_loop ?e ?rows 0 0 W
      = (Return (1, 1), logged r2 Failed (logged r1 Succeeded (W\<lparr>db := d\<rparr>)))"
    unfolding s1 s2 by simp
  from live_stats_batch_is_best_effort [OF rows conn, of W] obtain uc ec w' where
    res: "stats_loop ?e ?rows 0 0 W = (Return (uc, ec), w')"
    and run: "\<forall>bd gd fd w0.
               checkIfGameIsLive (api ?e) = Inr True \<and> getBootstrapData (api ?e) = Inr bd
               \<and> getCurrentGameweekData (api ?e) = Inr gd \<and> getFixturesData (api ?e) = Inr fd
               \<and> fst (validateData bd gd fd) \<and> connect_error ?e = None
               \<and> reference_upserts ?e bd fd (connecting w0) = (Return (), W)
               \<and> js_get gd ''elements'' = JArr ?rows
               \<longrightarrow> fst (main ?e w0) = (if ec > 0 then 1 else 0)"
    by blast
  have ec: "ec = 1" using res loop by simp
  have "fst (main ?e (fresh empty_db)) = (if ec > 0 then 1 else 0)"
    using run [rule_format, of sample_bootstrap sample_gameweek "JArr [sample_fixture]" "fresh empty_db"]
    by (simp add: e sample_is_live sample_bootstrap_fetched sample_gameweek_fetched
        sample_fixtures_fetched sample_is_valid W sample_rows)
  then show ?thesis by (simp add: ec)
qed

lemma unmatched_update:
  assumes el: "\<not> nullish element" "stats_request element = Inr req"
      and unmatched: "to_int e (js_get element ''id'') = IntNull
                      \<or> (\<exists>k. to_int e (js_get element ''id'') = IntVal k \<and> db w ''players'' k = None)"
      and served: "driver e (length (requests w)) = Done t"
  shows "execSql e req w = (Return (), logged req Succeeded w)"
    and "stats_loop e (element # rest) uc ec w = stats_loop e rest (uc + 1) ec (logged req Succeeded w)"
proof -
  have "apply_query e req t (db w) = Some (db w)"
    by (rule apply_query_Update_unmatched [OF stats_request_Inr(1) [OF el(2)]])
       (use unmatched in \<open>simp add: stats_request_Inr(2) [OF el(2)]\<close>)
  with served have "execSql e req w = (Return (), logged req Succeeded (w\<lparr>db := db w\<rparr>))"
    by (rule execSql_Done)
  then show 1: "execSql e req w = (Return (), logged req Succeeded w)" by simp
  show "stats_loop e (element # rest) uc ec w = stats_loop e rest (uc + 1) ec (logged req Succeeded w)"
    using el 1 by simp
qed

text \<open>The sample season runs to exit status 0, and player 999 has no row when it ends.\<close>

lemma sample_run:
  "fst (main sample_env (fresh empty_db)) = 0
   \<and> db (snd (main sample_env (fresh empty_db))) ''players'' 999 = None"
proof -
  let ?e = sample_env
  let ?fx = "JArr [sample_fixture]"
  have e: "api ?e = sample_api" "to_int ?e = sample_to_int" "connect_error ?e = None"
    by (simp_all add: sample_env_def)
  have drv: "driver ?e n = Done n" for n by (simp add: sample_env_def)
  from sample_before_stats [OF e(1,2)] obtain W where
    W: "reference_upserts ?e sample_bootstrap ?fx (connecting (fresh empty_db)) = (Return (), W)"
    and len: "length (requests W) = 404"
    using drv by auto
  have ok: "fst (reference_upserts ?e sample_bootstrap ?fx (connecting (fresh empty_db))) = Return ()"
    and snd: "snd (reference_upserts ?e sample_bootstrap ?fx (connecting (fresh empty_db))) = W"
    using W by simp_all
  have keys: "\<forall>x\<in>set (replicate 400 sample_player). \<forall>req. player_request x = Inr req
               \<longrightarrow> key_of ?e req ''id'' \<noteq> IntVal 999"
    by (auto simp: player_request_def sample_player_def key_of_def e(2) sample_to_int_def)
  have "untimed (db W) ''players'' 999
          = reference_row ?e sample_bootstrap ?fx ''players'' 999
              (untimed (db (connecting (fresh empty_db))) ''players'' 999)"
    using reference_upserts_rows [OF ok, of "''players''" 999] by (simp only: snd)
  also have "\<dots> = None"
    by (simp add: reference_row_def sample_bootstrap_def row_after_untouched [OF last_params_none [OF keys]]
        untimed_def connecting_def fresh_def empty_db_def)
  finally have absent: "db W ''players'' 999 = None" by (simp add: untimed_None)
  from sample_rows(3,4) obtain r1 r2 where r: "stats_request sample_live_row = Inr r1"
    "stats_request sample_second_row = Inr r2" by blast
  have un: "to_int ?e (js_get sample_live_row ''id'') = IntNull
      \<or> (\<exists>k. to_int ?e (js_get sample_live_row ''id'') = IntVal k \<and> db W ''players'' k = None)"
    using absent by (simp add: e(2) sample_rows sample_to_int_def)
  have s1: "stats_loop ?e [sample_live_row, sample_second_row] 0 0 W
      = stats_loop ?e [sample_second_row] (0 + 1) 0 (logged r1 Succeeded W)"
    by (rule unmatched_update(2) [OF sample_rows(1) r(1) un drv])
  let ?W1 = "logged r1 Succeeded W"
  have valid2: "to_int ?e (js_get sample_second_row ''id'') \<noteq> IntInvalid"
    by (simp add: e(2) sample_rows sample_to_int_def)
  from stats_step_ok [OF sample_rows(2) r(2) drv valid2, of ?W1 "[]" "0 + 1" 0]
  obtain d where d: "apply_query ?e r2 (length (requests ?W1)) (db ?W1) = Some d"
    and s2: "stats_loop ?e [sample_second_row] (0 + 1) 0 ?W1
      = stats_loop ?e [] (0 + 1 + 1) 0 (logged r2 Succeeded (?W1\<lparr>db := d\<rparr>))" .
  let ?W2 = "logged r2 Succeeded (?W1\<lparr>db := d\<rparr>)"
  have "(d ''players'' 999 = None) = (db ?W1 ''players'' 999 = None)"
    using stats_request_Inr(1) [OF r(2)] d by (rule apply_query_Update_keeps_absent)
  then have absent2: "db ?W2 ''players'' 999 = None"
    using absent by (simp add: logged_def)
  have loop: "stats_loop ?e [sample_live_row, sample_second_row] 0 0 W = (Return (2, 0), ?W2)"
    unfolding s1 s2 by simp
  have ups: "updatePlayerStats ?e [sample_live_row, sample_second_row] W = (Return (), ?W2)"
    using updatePlayerStats_of_loop [OF loop] by simp
  have "main ?e (fresh empty_db) = (0, close_connection ?W2)"
    by (rule main_of_stats_world [where bd = sample_bootstrap and gd = sample_gameweek and fd = ?fx
          and w = W and elements = "[sample_live_row, sample_second_row]"])
       (simp_all add: e sample_is_live sample_bootstrap_fetched sample_gameweek_fetched
          sample_fixtures_fetched sample_is_valid W sample_rows ups)
  then show ?thesis using absent2 by (simp add: close_connection_def)
qed

text \<open>
  C10. A live row whose player identifier is NULL or matches no row of the players table
  is updated without error whenever the server executes the statement: the stored rows
  stay as they were, the callback resolves, and the loop counts the row as a success.
  And such a run can end with exit status 0 while the player of that row has no row in
  the players table: the sample season is one.
\<close>

theorem unmatched_live_row_counts_as_success:
  assumes el: "\<not> nullish element" "stats_request element = Inr req"
      and unmatched: "to_int e (js_get element ''id'') = IntNull
                      \<or> (\<exists>k. to_int e (js_get element ''id'') = IntVal k \<and> db w ''players'' k = None)"
      and served: "driver e (length (requests w)) = Done t"
  shows "execSql e req w = (Return (), logged req Succeeded w)
       \<and> db (logged req Succeeded w) = db w
       \<and> stats_loop e (element # rest) updateCount errorCount w
           = stats_loop e rest (updateCount + 1) errorCount (logged req Succeeded w)
       \<and> (\<exists>e' d gd element' k.
             getCurrentGameweekData (api e') = Inr gd
             \<and> element' \<in> set (elements_of (js_get gd ''elements''))
             \<and> to_int e' (js_get element' ''id'') = IntVal k
             \<and> fst (main e' (fresh d)) = 0
             \<and> db (snd (main e' (fresh d))) ''players'' k = None)"
proof -
  have api: "api sample_env = sample_api" and int: "to_int sample_env = sample_to_int"
    by (simp_all add: sample_env_def)
  have "getCurrentGameweekData (api sample_env) = Inr sample_gameweek
             \<and> sample_live_row \<in> set (elements_of (js_get sample_gameweek ''elements''))
             \<and> to_int sample_env (js_get sample_live_row ''id'') = IntVal 999
             \<and> fst (main sample_env (fresh empty_db)) = 0
             \<and> db (snd (main sample_env (fresh empty_db))) ''players'' 999 = None"
    by (simp add: sample_run api int sample_gameweek_fetched sample_rows sample_to_int_def)
  then have ex: "\<exists>e' d gd element' k.
             getCurrentGameweekData (api e') = Inr gd
             \<and> element' \<in> set (elements_of (js_get gd ''elements''))
             \<and> to_int e' (js_get element' ''id'') = IntVal k
             \<and> fst (main e' (fresh d)) = 0
             \<and> db (snd (main e' (fresh d))) ''players'' k = None"
    by blast
  have 1: "execSql e req w = (Return (), logged req Succeeded w)"
    using el unmatched served by (rule unmatched_update(1))
  have 2: "stats_loop e (element # rest) updateCount errorCount w
           = stats_loop e rest (updateCount + 1) errorCount (logged req Succeeded w)"
    using el unmatched served by (rule unmatched_update(2))
  have 3: "db (logged req Succeeded w) = db w" by (simp add: logged_def)
  show ?thesis by (intro conjI 1 2 3 ex)
qed

theorem unmatched_live_row_counts_as_success_witness:
  "execSql sample_env (projr (stats_request sample_live_row)) (fresh empty_db)
     = (Return (), logged (projr (stats_request sample_live_row)) Succeeded (fresh empty_db))"
proof -
  from sample_rows(3) obtain req where req: "stats_request sample_live_row = Inr req" by blast
  have un: "to_int sample_env (js_get sample_live_row ''id'') = IntNull
      \<or> (\<exists>k. to_int sample_env (js_get sample_live_row ''id'') = IntVal k
            \<and> db (fresh empty_db) ''players'' k = None)"
    by (simp add: sample_env_def sample_rows sample_to_int_def fresh_def empty_db_def)
  have served: "driver sample_env (length (requests (fresh empty_db))) = Done 0"
    by (simp add: sample_env_def fresh_def)
  from unmatched_live_row_counts_as_success [OF sample_rows(1) req un served]
  show ?thesis by (simp add: req)
qed

end
